theory Spec2Isabelle
  imports Main "HOL-Library.Word"
begin

section \<open>Data model of the export operator\<close>

text \<open>
  The embedding follows \<^verbatim>\<open>src/executor/operator/physical_export.cpp\<close>.
  Sizes, counters and column identifiers (\<^verbatim>\<open>SizeT\<close>, \<^verbatim>\<open>ColumnID\<close>, both 64 bit) are
  natural numbers: every counter of the operator is bounded by the number of rows it has
  scanned, so none of them reaches \<open>2 ^ 64\<close>. Row indices of a block, which the
  Parquet sink keeps as \<^verbatim>\<open>u32\<close>, are natural numbers too. The narrowing conversions
  whose result is written out are modelled: the row id offset of a block is taken
  modulo \<open>2 ^ 32\<close>, and the dimension written by the FVECS sink is a \<open>32 word\<close>.
\<close>

subsection \<open>Logical types and column definitions\<close>

datatype LogicalType =
    kBoolean | kTinyInt | kSmallInt | kInteger | kBigInt | kHugeInt | kDecimal
  | kFloat | kDouble | kFloat16 | kBFloat16 | kVarchar | kDate | kTime | kDateTime
  | kTimestamp | kInterval | kArray | kTuple | kPoint | kLine | kLineSeg | kBox
  | kCircle | kUuid | kEmbedding | kRowID | kMixed | kNull | kMissing | kTensor
  | kTensorArray | kSparse | kEmptyArray | kMultiVector | kInvalid

datatype EmbeddingDataType =
    kElemBit | kElemInt8 | kElemInt16 | kElemInt32 | kElemInt64 | kElemFloat
  | kElemDouble | kElemUInt8 | kElemFloat16 | kElemBFloat16 | kElemInvalid

text \<open>
  \<^verbatim>\<open>type_info()\<close> of a data type: nothing for the scalar types, an \<^verbatim>\<open>EmbeddingInfo\<close>
  (element type, dimension) for the vector family, a \<^verbatim>\<open>SparseInfo\<close> (data type, index
  type, dimension) for sparse vectors.
\<close>

datatype TypeInfo =
    NoTypeInfo
  | EmbeddingInfo EmbeddingDataType nat
  | SparseInfo EmbeddingDataType EmbeddingDataType nat

record DataType =
  logical_type :: LogicalType
  type_info :: TypeInfo

record ColumnDef =
  name :: string
  column_type :: DataType

subsection \<open>Faults\<close>

text \<open>
  \<^verbatim>\<open>RecoverableError\<close> and \<^verbatim>\<open>UnrecoverableError\<close> both leave the running function by
  an exception; they differ in the class of the exception. The two remaining
  constructors stand for what the C++ standard leaves undefined: an unchecked
  \<^verbatim>\<open>operator[]\<close> beyond the end of a vector, a call through a null \<^verbatim>\<open>shared_ptr\<close>,
  and a \<^verbatim>\<open>static_cast\<close> of a type info to a class it does not have.
\<close>

datatype Status = NotSupport | IOError | MakeDirectoryFailed | OpenFailed

datatype ExportError =
    RecoverableError Status
  | UnrecoverableError string
  | OutOfBoundsAccess nat
  | NullPointerDereference
  | InvalidCast

section \<open>Logical type lowering for the columnar sink\<close>

datatype ArrowType =
    arrow_boolean | arrow_int8 | arrow_int16 | arrow_int32 | arrow_int64 | arrow_uint8
  | arrow_float16 | arrow_float32 | arrow_float64 | arrow_date32
  | arrow_time32_SECOND | arrow_timestamp_SECOND | arrow_utf8
  | arrow_list ArrowType
  | arrow_fixed_size_list ArrowType nat
  | arrow_struct "(string \<times> ArrowType) list"

datatype ArrayBuilder =
    BooleanBuilder | Int8Builder | Int16Builder | Int32Builder | Int64Builder
  | UInt8Builder | HalfFloatBuilder | FloatBuilder | DoubleBuilder | Date32Builder
  | Time32Builder ArrowType | TimestampBuilder ArrowType | StringBuilder
  | ListBuilder ArrayBuilder
  | FixedSizeListBuilder ArrayBuilder nat
  | StructBuilder ArrowType "ArrayBuilder list"

text \<open>\<^verbatim>\<open>ArrayBuilder::type()\<close> of the Arrow library.\<close>

fun builder_type :: "ArrayBuilder \<Rightarrow> ArrowType" where
  "builder_type BooleanBuilder = arrow_boolean"
| "builder_type Int8Builder = arrow_int8"
| "builder_type Int16Builder = arrow_int16"
| "builder_type Int32Builder = arrow_int32"
| "builder_type Int64Builder = arrow_int64"
| "builder_type UInt8Builder = arrow_uint8"
| "builder_type HalfFloatBuilder = arrow_float16"
| "builder_type FloatBuilder = arrow_float32"
| "builder_type DoubleBuilder = arrow_float64"
| "builder_type Date32Builder = arrow_date32"
| "builder_type (Time32Builder t) = t"
| "builder_type (TimestampBuilder t) = t"
| "builder_type StringBuilder = arrow_utf8"
| "builder_type (ListBuilder b) = arrow_list (builder_type b)"
| "builder_type (FixedSizeListBuilder b n) = arrow_fixed_size_list (builder_type b) n"
| "builder_type (StructBuilder t bs) = t"

subsection \<open>\<^verbatim>\<open>PhysicalExport::GetArrowType\<close>\<close>

text \<open>The first switch of the sparse case, over \<^verbatim>\<open>sparse_info->IndexType()\<close>.\<close>

fun sparse_index_type :: "EmbeddingDataType \<Rightarrow> ExportError + ArrowType" where
  "sparse_index_type kElemInt8 = Inr (arrow_list arrow_int8)"
| "sparse_index_type kElemInt16 = Inr (arrow_list arrow_int16)"
| "sparse_index_type kElemInt32 = Inr (arrow_list arrow_int32)"
| "sparse_index_type kElemInt64 = Inr (arrow_list arrow_int64)"
| "sparse_index_type _ = Inl (UnrecoverableError ''Index type invalid'')"

text \<open>
  The second switch, over \<^verbatim>\<open>sparse_info->DataType()\<close>; \<^verbatim>\<open>value_type\<close> is an
  \<^verbatim>\<open>Optional\<close> that stays \<^verbatim>\<open>None\<close> in the bit case.
\<close>

fun sparse_value_type :: "EmbeddingDataType \<Rightarrow> ExportError + ArrowType option" where
  "sparse_value_type kElemBit = Inr None"
| "sparse_value_type kElemInt8 = Inr (Some (arrow_list arrow_int8))"
| "sparse_value_type kElemInt16 = Inr (Some (arrow_list arrow_int16))"
| "sparse_value_type kElemInt32 = Inr (Some (arrow_list arrow_int32))"
| "sparse_value_type kElemInt64 = Inr (Some (arrow_list arrow_int64))"
| "sparse_value_type kElemFloat = Inr (Some (arrow_list arrow_float32))"
| "sparse_value_type kElemDouble = Inr (Some (arrow_list arrow_float64))"
| "sparse_value_type kElemUInt8 = Inr (Some (arrow_list arrow_uint8))"
| "sparse_value_type kElemFloat16 = Inr (Some (arrow_list arrow_float16))"
| "sparse_value_type kElemBFloat16 = Inr (Some (arrow_list arrow_float32))"
| "sparse_value_type kElemInvalid = Inl (UnrecoverableError ''Data type invalid'')"

text \<open>The switch of the vector family, over \<^verbatim>\<open>embedding_info->Type()\<close>.\<close>

fun arrow_embedding_elem_type :: "EmbeddingDataType \<Rightarrow> ExportError + ArrowType" where
  "arrow_embedding_elem_type kElemBit = Inr arrow_boolean"
| "arrow_embedding_elem_type kElemInt8 = Inr arrow_int8"
| "arrow_embedding_elem_type kElemInt16 = Inr arrow_int16"
| "arrow_embedding_elem_type kElemInt32 = Inr arrow_int32"
| "arrow_embedding_elem_type kElemInt64 = Inr arrow_int64"
| "arrow_embedding_elem_type kElemFloat = Inr arrow_float32"
| "arrow_embedding_elem_type kElemDouble = Inr arrow_float64"
| "arrow_embedding_elem_type kElemUInt8 = Inr arrow_uint8"
| "arrow_embedding_elem_type kElemFloat16 = Inr arrow_float16"
| "arrow_embedding_elem_type kElemBFloat16 = Inr arrow_float32"
| "arrow_embedding_elem_type kElemInvalid =
     Inl (UnrecoverableError ''Invalid case EmbeddingDataType::kElemInvalid'')"

definition GetArrowType_sparse :: "TypeInfo \<Rightarrow> ExportError + ArrowType" where
  "GetArrowType_sparse ti =
     (case ti of
        SparseInfo data_type index_type dim \<Rightarrow>
          (case sparse_index_type index_type of
             Inl e \<Rightarrow> Inl e
           | Inr index_t \<Rightarrow>
               (case sparse_value_type data_type of
                  Inl e \<Rightarrow> Inl e
                | Inr value_type \<Rightarrow>
                    Inr (arrow_struct
                          ((''index'', index_t) #
                           (case value_type of None \<Rightarrow> [] | Some v \<Rightarrow> [(''value'', v)])))))
      | _ \<Rightarrow> Inl InvalidCast)"

definition GetArrowType_embedding :: "LogicalType \<Rightarrow> TypeInfo \<Rightarrow> ExportError + ArrowType" where
  "GetArrowType_embedding column_logical_type ti =
     (case ti of
        EmbeddingInfo elem_type dimension \<Rightarrow>
          (case arrow_embedding_elem_type elem_type of
             Inl e \<Rightarrow> Inl e
           | Inr elem_t \<Rightarrow>
               (let arrow_embedding_type = arrow_fixed_size_list elem_t dimension;
                    arrow_tensor_type = arrow_list arrow_embedding_type;
                    arrow_tensor_array_type = arrow_list arrow_tensor_type
                in if column_logical_type = kEmbedding then Inr arrow_embedding_type
                   else if column_logical_type = kTensor \<or> column_logical_type = kMultiVector
                   then Inr arrow_tensor_type
                   else if column_logical_type = kTensorArray then Inr arrow_tensor_array_type
                   else Inl (UnrecoverableError ''Unreachable code!'')))
      | _ \<Rightarrow> Inl InvalidCast)"

fun GetArrowType_switch :: "LogicalType \<Rightarrow> TypeInfo \<Rightarrow> ExportError + ArrowType" where
  "GetArrowType_switch kBoolean ti = Inr arrow_boolean"
| "GetArrowType_switch kTinyInt ti = Inr arrow_int8"
| "GetArrowType_switch kSmallInt ti = Inr arrow_int16"
| "GetArrowType_switch kInteger ti = Inr arrow_int32"
| "GetArrowType_switch kBigInt ti = Inr arrow_int64"
| "GetArrowType_switch kFloat16 ti = Inr arrow_float16"
| "GetArrowType_switch kBFloat16 ti = Inr arrow_float32"
| "GetArrowType_switch kFloat ti = Inr arrow_float32"
| "GetArrowType_switch kDouble ti = Inr arrow_float64"
| "GetArrowType_switch kDate ti = Inr arrow_date32"
| "GetArrowType_switch kTime ti = Inr arrow_time32_SECOND"
| "GetArrowType_switch kDateTime ti = Inr arrow_timestamp_SECOND"
| "GetArrowType_switch kTimestamp ti = Inr arrow_timestamp_SECOND"
| "GetArrowType_switch kVarchar ti = Inr arrow_utf8"
| "GetArrowType_switch kSparse ti = GetArrowType_sparse ti"
| "GetArrowType_switch kEmbedding ti = GetArrowType_embedding kEmbedding ti"
| "GetArrowType_switch kMultiVector ti = GetArrowType_embedding kMultiVector ti"
| "GetArrowType_switch kTensor ti = GetArrowType_embedding kTensor ti"
| "GetArrowType_switch kTensorArray ti = GetArrowType_embedding kTensorArray ti"
| "GetArrowType_switch _ ti = Inl (UnrecoverableError ''Invalid data type'')"

definition GetArrowType :: "ColumnDef \<Rightarrow> ExportError + ArrowType" where
  "GetArrowType column_def =
     GetArrowType_switch (logical_type (column_type column_def))
                         (type_info (column_type column_def))"

subsection \<open>\<^verbatim>\<open>PhysicalExport::BuildArrowArray\<close>: the builder\<close>

text \<open>
  The builders of the sparse case are \<^verbatim>\<open>shared_ptr\<close>s that start out null; the index
  switch either sets \<^verbatim>\<open>index_builder\<close> or raises, the data switch leaves
  \<^verbatim>\<open>value_builder\<close> null in the bit case.
\<close>

fun sparse_index_builder :: "EmbeddingDataType \<Rightarrow> ExportError + ArrayBuilder" where
  "sparse_index_builder kElemInt8 = Inr (ListBuilder Int8Builder)"
| "sparse_index_builder kElemInt16 = Inr (ListBuilder Int16Builder)"
| "sparse_index_builder kElemInt32 = Inr (ListBuilder Int32Builder)"
| "sparse_index_builder kElemInt64 = Inr (ListBuilder Int64Builder)"
| "sparse_index_builder _ = Inl (UnrecoverableError ''Invalid index type.'')"

fun sparse_value_builder :: "EmbeddingDataType \<Rightarrow> ExportError + ArrayBuilder option" where
  "sparse_value_builder kElemBit = Inr None"
| "sparse_value_builder kElemInt8 = Inr (Some (ListBuilder Int8Builder))"
| "sparse_value_builder kElemInt16 = Inr (Some (ListBuilder Int16Builder))"
| "sparse_value_builder kElemInt32 = Inr (Some (ListBuilder Int32Builder))"
| "sparse_value_builder kElemInt64 = Inr (Some (ListBuilder Int64Builder))"
| "sparse_value_builder kElemFloat = Inr (Some (ListBuilder FloatBuilder))"
| "sparse_value_builder kElemDouble = Inr (Some (ListBuilder DoubleBuilder))"
| "sparse_value_builder kElemUInt8 = Inr (Some (ListBuilder UInt8Builder))"
| "sparse_value_builder kElemFloat16 = Inr (Some (ListBuilder HalfFloatBuilder))"
| "sparse_value_builder kElemBFloat16 = Inr (Some (ListBuilder FloatBuilder))"
| "sparse_value_builder kElemInvalid = Inl (UnrecoverableError ''Invalid data type.'')"

fun embedding_element_builder :: "EmbeddingDataType \<Rightarrow> ExportError + ArrayBuilder" where
  "embedding_element_builder kElemBit = Inr BooleanBuilder"
| "embedding_element_builder kElemInt8 = Inr Int8Builder"
| "embedding_element_builder kElemInt16 = Inr Int16Builder"
| "embedding_element_builder kElemInt32 = Inr Int32Builder"
| "embedding_element_builder kElemInt64 = Inr Int64Builder"
| "embedding_element_builder kElemFloat = Inr FloatBuilder"
| "embedding_element_builder kElemDouble = Inr DoubleBuilder"
| "embedding_element_builder kElemUInt8 = Inr UInt8Builder"
| "embedding_element_builder kElemFloat16 = Inr HalfFloatBuilder"
| "embedding_element_builder kElemBFloat16 = Inr FloatBuilder"
| "embedding_element_builder kElemInvalid =
     Inl (UnrecoverableError ''Invalid embedding data type: EmbeddingDataType::kElemInvalid'')"

text \<open>
  After the two switches the struct type is built from \<^verbatim>\<open>index_builder->type()\<close> and
  \<^verbatim>\<open>value_builder->type()\<close>, before the test \<^verbatim>\<open>value_builder.get() != nullptr\<close> that
  guards the list of field builders.
\<close>

definition array_builder_sparse :: "TypeInfo \<Rightarrow> ExportError + ArrayBuilder" where
  "array_builder_sparse ti =
     (case ti of
        SparseInfo data_type index_type dim \<Rightarrow>
          (case sparse_index_builder index_type of
             Inl e \<Rightarrow> Inl e
           | Inr index_builder \<Rightarrow>
               (case sparse_value_builder data_type of
                  Inl e \<Rightarrow> Inl e
                | Inr value_builder \<Rightarrow>
                    (case value_builder of
                       None \<Rightarrow> Inl NullPointerDereference
                     | Some vb \<Rightarrow>
                         (let struct_type =
                                arrow_struct [(''index'', builder_type index_builder),
                                              (''value'', builder_type vb)];
                              field_builders =
                                [index_builder] @
                                (case value_builder of None \<Rightarrow> [] | Some b \<Rightarrow> [b])
                          in Inr (StructBuilder struct_type field_builders)))))
      | _ \<Rightarrow> Inl InvalidCast)"

definition array_builder_embedding :: "LogicalType \<Rightarrow> TypeInfo \<Rightarrow> ExportError + ArrayBuilder" where
  "array_builder_embedding column_logical_type ti =
     (case ti of
        EmbeddingInfo elem_type dimension \<Rightarrow>
          (case embedding_element_builder elem_type of
             Inl e \<Rightarrow> Inl e
           | Inr elem_builder \<Rightarrow>
               (let embedding_arrow_array_builder = FixedSizeListBuilder elem_builder dimension;
                    tensor_arrow_array_builder = ListBuilder embedding_arrow_array_builder;
                    tensor_array_arrow_array_builder = ListBuilder tensor_arrow_array_builder
                in if column_logical_type = kEmbedding then Inr embedding_arrow_array_builder
                   else if column_logical_type = kTensor \<or> column_logical_type = kMultiVector
                   then Inr tensor_arrow_array_builder
                   else if column_logical_type = kTensorArray
                   then Inr tensor_array_arrow_array_builder
                   else Inl (UnrecoverableError ''Unreachable code!'')))
      | _ \<Rightarrow> Inl InvalidCast)"

fun array_builder_switch :: "LogicalType \<Rightarrow> TypeInfo \<Rightarrow> ExportError + ArrayBuilder" where
  "array_builder_switch kBoolean ti = Inr BooleanBuilder"
| "array_builder_switch kTinyInt ti = Inr Int8Builder"
| "array_builder_switch kSmallInt ti = Inr Int16Builder"
| "array_builder_switch kInteger ti = Inr Int32Builder"
| "array_builder_switch kBigInt ti = Inr Int64Builder"
| "array_builder_switch kFloat ti = Inr FloatBuilder"
| "array_builder_switch kDouble ti = Inr DoubleBuilder"
| "array_builder_switch kFloat16 ti = Inr HalfFloatBuilder"
| "array_builder_switch kBFloat16 ti = Inr FloatBuilder"
| "array_builder_switch kDate ti = Inr Date32Builder"
| "array_builder_switch kTime ti = Inr (Time32Builder arrow_time32_SECOND)"
| "array_builder_switch kDateTime ti = Inr (TimestampBuilder arrow_timestamp_SECOND)"
| "array_builder_switch kTimestamp ti = Inr (TimestampBuilder arrow_timestamp_SECOND)"
| "array_builder_switch kVarchar ti = Inr StringBuilder"
| "array_builder_switch kSparse ti = array_builder_sparse ti"
| "array_builder_switch kEmbedding ti = array_builder_embedding kEmbedding ti"
| "array_builder_switch kMultiVector ti = array_builder_embedding kMultiVector ti"
| "array_builder_switch kTensor ti = array_builder_embedding kTensor ti"
| "array_builder_switch kTensorArray ti = array_builder_embedding kTensorArray ti"
| "array_builder_switch _ ti = Inl (UnrecoverableError ''Invalid data type'')"

definition BuildArrowArray_builder :: "ColumnDef \<Rightarrow> ExportError + ArrayBuilder" where
  "BuildArrowArray_builder column_def =
     array_builder_switch (logical_type (column_type column_def))
                          (type_info (column_type column_def))"


section \<open>Storage, collaborators and the operator's configuration\<close>

text \<open>
  \<^verbatim>\<open>Value\<close> and \<^verbatim>\<open>ColumnVector\<close> are declared outside this file. A value is
  represented by what the accessors used here return: its logical type, its text form
  and the raw bytes of its embedding. A column vector is the list of its values and
  \<^verbatim>\<open>Size()\<close> is its length.
\<close>

record Value =
  value_type :: LogicalType
  ToString :: string
  GetEmbedding :: "8 word list"

type_synonym ColumnVector = "Value list"

text \<open>
  Modelled from the spec: \<^verbatim>\<open>ColumnVector::GetValue\<close> belongs to the module
  \<^verbatim>\<open>column_vector\<close>, which is not embedded here. A
  column vector whose length disagrees with the row count of its block is a fatal
  internal-consistency fault, so a read at or beyond \<^verbatim>\<open>Size()\<close> is an
  unrecoverable fault.
\<close>

definition GetValue :: "ColumnVector \<Rightarrow> nat \<Rightarrow> ExportError + Value" where
  "GetValue column_vector idx =
     (if idx < length column_vector then Inr (column_vector ! idx)
      else Inl (UnrecoverableError ''Attempt to access an invalid index of column vector''))"

record BlockEntry =
  block_id :: nat
  segment_offset :: nat
  block_row_count :: nat
  GetConstColumnVector :: "nat \<Rightarrow> ColumnVector"
  GetCreateTSVector :: "nat \<Rightarrow> nat \<Rightarrow> ColumnVector"
  GetDeleteTSVector :: "nat \<Rightarrow> nat \<Rightarrow> ColumnVector"

text \<open>
  A segment snapshot carries the delete filter built for it
  (\<^verbatim>\<open>DeleteFilter(segment_entry_, txn->BeginTS(), segment_offset_)\<close>) as the predicate
  \<open>visible\<close> on segment offsets, and its vector of block entries.
\<close>

record SegmentSnapshot =
  visible :: "nat \<Rightarrow> bool"
  block_map' :: "BlockEntry list"

text \<open>
  The members of the operator, with a prime for the trailing underscore of the source.
  \<open>segment_block_index'\<close> is the ordered map from segment
  id to segment snapshot, listed in the ascending key order in which the range-for
  loops visit it.
\<close>

record PhysicalExport =
  file_path' :: string
  header' :: bool
  delimiter' :: char
  offset' :: nat
  limit' :: nat
  row_limit' :: nat
  column_idx_array' :: "nat list"
  column_defs :: "ColumnDef list"
  segment_block_index' :: "(nat \<times> SegmentSnapshot) list"

text \<open>
  What the operator takes from other modules: the three column identifiers of the
  virtual columns and the block capacity (constants of \<^verbatim>\<open>default_values\<close>), the value
  of a row id, the virtual file store, and the status of each call into the Arrow and
  Parquet libraries.
\<close>

record Env =
  COLUMN_IDENTIFIER_ROW_ID :: nat
  COLUMN_IDENTIFIER_CREATE :: nat
  COLUMN_IDENTIFIER_DELETE :: nat
  DEFAULT_BLOCK_CAPACITY :: nat
  RowID_Value :: "nat \<Rightarrow> nat \<Rightarrow> Value"
  GetParentPath :: "string \<Rightarrow> string"
  MakeDirectory_ok :: "string \<Rightarrow> bool"
  Open_ok :: "string \<Rightarrow> bool"
  FileOutputStream_Open_ok :: "string \<Rightarrow> bool"
  FileWriter_Open_ok :: "string \<Rightarrow> bool"
  WriteRecordBatch_ok :: "string \<Rightarrow> bool"
  Close_ok :: "string \<Rightarrow> bool"

section \<open>The scan shared by the sinks\<close>

text \<open>
  \<^verbatim>\<open>goto label_return\<close> leaves the row loop, the block loop and the segment loop at
  once. Each loop body returns, besides the state, whether the jump was taken.
\<close>

datatype loop_ctl = Continue | LabelReturn

fun for_each ::
  "('x \<Rightarrow> 's \<Rightarrow> ExportError + (loop_ctl \<times> 's)) \<Rightarrow> 'x list \<Rightarrow> 's
     \<Rightarrow> ExportError + (loop_ctl \<times> 's)" where
  "for_each body [] s = Inr (Continue, s)"
| "for_each body (x # xs) s =
     (case body x s of
        Inl e \<Rightarrow> Inl e
      | Inr (LabelReturn, s') \<Rightarrow> Inr (LabelReturn, s')
      | Inr (Continue, s') \<Rightarrow> for_each body xs s')"

text \<open>\<^verbatim>\<open>select_columns\<close>: all columns of the table, or the column index array.\<close>

definition select_columns_of :: "PhysicalExport \<Rightarrow> nat list" where
  "select_columns_of ex =
     (if column_idx_array' ex = [] then [0..<length (column_defs ex)]
      else column_idx_array' ex)"

text \<open>
  Modelled from the spec: \<^verbatim>\<open>ColumnVector::AppendWith\<close> belongs to the module
  \<^verbatim>\<open>column_vector\<close>, which is not embedded here.
  The virtual row-id column is a dense run of (segment id, offset in the segment)
  identifiers, one per row of the block, that starts at the block id times the block
  capacity, the \<^verbatim>\<open>u32 segment_offset\<close> of the code.
\<close>

definition row_id_vector :: "Env \<Rightarrow> nat \<Rightarrow> BlockEntry \<Rightarrow> ColumnVector" where
  "row_id_vector env segment_id block_entry =
     (let segment_offset = (block_id block_entry * DEFAULT_BLOCK_CAPACITY env) mod 2 ^ 32
      in map (\<lambda>i. RowID_Value env segment_id (segment_offset + i))
             [0..<block_row_count block_entry])"

text \<open>The column vectors of one block (the same code in the CSV, JSONL and PARQUET sinks).\<close>

fun materialize_columns ::
  "Env \<Rightarrow> nat \<Rightarrow> BlockEntry \<Rightarrow> nat list \<Rightarrow> ExportError + ColumnVector list" where
  "materialize_columns env segment_id block_entry [] = Inr []"
| "materialize_columns env segment_id block_entry (select_column_idx # rest) =
     (case
        (if select_column_idx = COLUMN_IDENTIFIER_ROW_ID env
         then Inr (row_id_vector env segment_id block_entry)
         else if select_column_idx = COLUMN_IDENTIFIER_CREATE env
         then Inr (GetCreateTSVector block_entry 0 (block_row_count block_entry))
         else if select_column_idx = COLUMN_IDENTIFIER_DELETE env
         then Inr (GetDeleteTSVector block_entry 0 (block_row_count block_entry))
         else if length (GetConstColumnVector block_entry select_column_idx)
                   \<noteq> block_row_count block_entry
         then Inl (UnrecoverableError ''Unmatched row_count between block and block_column'')
         else Inr (GetConstColumnVector block_entry select_column_idx))
      of Inl e \<Rightarrow> Inl e
       | Inr column_vector \<Rightarrow>
           (case materialize_columns env segment_id block_entry rest of
              Inl e \<Rightarrow> Inl e
            | Inr column_vectors \<Rightarrow> Inr (column_vector # column_vectors)))"

subsection \<open>The state of a sink that writes row by row\<close>

text \<open>
  \<open>file_handle\<close> is the open file: its path and what has been appended to it.
  Moving a new handle into \<^verbatim>\<open>file_handle\<close> closes the old file, which joins
  \<open>closed_files\<close>. The sinks return the row count; the model returns with it the
  files written, in the order in which they were opened.
\<close>

record 'a SinkState =
  offset :: nat
  row_count :: nat
  file_no' :: nat
  closed_files :: "(string \<times> 'a list) list"
  file_handle :: "string \<times> 'a list"

text \<open>\<^verbatim>\<open>fmt::format("{}", n)\<close> for an unsigned integer.\<close>

fun show_nat :: "nat \<Rightarrow> string" where
  "show_nat n =
     (if n < 10 then [''0123456789'' ! n]
      else show_nat (n div 10) @ [''0123456789'' ! (n mod 10)])"

declare show_nat.simps [simp del]

definition part_file_path :: "string \<Rightarrow> nat \<Rightarrow> string" where
  "part_file_path path n = path @ ''.part'' @ show_nat n"

definition Append ::
  "'a list \<Rightarrow> ('a, 'z) SinkState_scheme \<Rightarrow> ('a, 'z) SinkState_scheme" where
  "Append bytes st =
     st\<lparr>file_handle := (fst (file_handle st), snd (file_handle st) @ bytes)\<rparr>"

text \<open>
  The test made before each row is written:
  \<^verbatim>\<open>row_count > 0 && row_limit_ != 0 && (row_count % row_limit_) == 0\<close>.
\<close>

definition open_next_part ::
  "Env \<Rightarrow> PhysicalExport \<Rightarrow> 'a SinkState \<Rightarrow> ExportError + 'a SinkState" where
  "open_next_part env ex st =
     (if row_count st > 0 \<and> row_limit' ex \<noteq> 0 \<and> row_count st mod row_limit' ex = 0
      then (let n = file_no' st + 1;
                new_file_path = part_file_path (file_path' ex) n
            in if Open_ok env new_file_path
               then Inr (st\<lparr>file_no' := n,
                            closed_files := closed_files st @ [file_handle st],
                            file_handle := (new_file_path, [])\<rparr>)
               else Inl (RecoverableError OpenFailed))
      else Inr st)"

text \<open>
  The body of the row loop of the CSV, JSONL and FVECS sinks; \<open>record_of\<close> renders the
  bytes of the row at an index of the block.
\<close>

definition export_row ::
  "Env \<Rightarrow> PhysicalExport \<Rightarrow> (nat \<Rightarrow> bool) \<Rightarrow> nat \<Rightarrow> (nat \<Rightarrow> ExportError + 'a list)
     \<Rightarrow> nat \<Rightarrow> 'a SinkState \<Rightarrow> ExportError + (loop_ctl \<times> 'a SinkState)" where
  "export_row env ex visible_fn seg_off record_of row_idx st =
     (if \<not> visible_fn (seg_off + row_idx) then Inr (Continue, st)
      else if offset st > 0 then Inr (Continue, st\<lparr>offset := offset st - 1\<rparr>)
      else case record_of row_idx of
             Inl e \<Rightarrow> Inl e
           | Inr line \<Rightarrow>
               (case open_next_part env ex st of
                  Inl e \<Rightarrow> Inl e
                | Inr st1 \<Rightarrow>
                    (let st2 = (Append line st1)\<lparr>row_count := row_count st1 + 1\<rparr>
                     in if limit' ex \<noteq> 0 \<and> row_count st2 = limit' ex
                        then Inr (LabelReturn, st2)
                        else Inr (Continue, st2))))"

definition export_block ::
  "Env \<Rightarrow> PhysicalExport \<Rightarrow> (nat \<Rightarrow> BlockEntry \<Rightarrow> ExportError + 'c)
     \<Rightarrow> ('c \<Rightarrow> nat \<Rightarrow> ExportError + 'a list) \<Rightarrow> nat \<Rightarrow> SegmentSnapshot
     \<Rightarrow> BlockEntry \<Rightarrow> 'a SinkState \<Rightarrow> ExportError + (loop_ctl \<times> 'a SinkState)" where
  "export_block env ex fetch record_of segment_id segment_snapshot block_entry st =
     (case fetch segment_id block_entry of
        Inl e \<Rightarrow> Inl e
      | Inr column_vectors \<Rightarrow>
          for_each (export_row env ex (visible segment_snapshot) (segment_offset block_entry)
                      (record_of column_vectors))
            [0..<block_row_count block_entry] st)"

definition export_segments ::
  "Env \<Rightarrow> PhysicalExport \<Rightarrow> (nat \<Rightarrow> BlockEntry \<Rightarrow> ExportError + 'c)
     \<Rightarrow> ('c \<Rightarrow> nat \<Rightarrow> ExportError + 'a list) \<Rightarrow> 'a SinkState
     \<Rightarrow> ExportError + (loop_ctl \<times> 'a SinkState)" where
  "export_segments env ex fetch record_of st =
     for_each (\<lambda>(segment_id, segment_snapshot).
                 for_each (export_block env ex fetch record_of segment_id segment_snapshot)
                          (block_map' segment_snapshot))
       (segment_block_index' ex) st"

text \<open>
  The code before the loops that every sink shares: the parent directory, then the
  primary file.
\<close>

definition make_parent_directory :: "Env \<Rightarrow> PhysicalExport \<Rightarrow> ExportError + unit" where
  "make_parent_directory env ex =
     (let parent_path = GetParentPath env (file_path' ex)
      in if parent_path \<noteq> [] \<and> \<not> MakeDirectory_ok env parent_path
         then Inl (RecoverableError MakeDirectoryFailed) else Inr ())"

definition open_primary :: "Env \<Rightarrow> PhysicalExport \<Rightarrow> ExportError + 'a SinkState" where
  "open_primary env ex =
     (case make_parent_directory env ex of
        Inl e \<Rightarrow> Inl e
      | Inr _ \<Rightarrow>
          if Open_ok env (file_path' ex)
          then Inr \<lparr>offset = offset' ex, row_count = 0, file_no' = 0, closed_files = [],
                    file_handle = (file_path' ex, [])\<rparr>
          else Inl (RecoverableError OpenFailed))"

definition files_written :: "('a, 'z) SinkState_scheme \<Rightarrow> (string \<times> 'a list) list" where
  "files_written st = closed_files st @ [file_handle st]"

definition sink_result ::
  "ExportError + (loop_ctl \<times> 'a SinkState) \<Rightarrow> ExportError + (nat \<times> (string \<times> 'a list) list)" where
  "sink_result r =
     (case r of Inl e \<Rightarrow> Inl e | Inr (c, st) \<Rightarrow> Inr (row_count st, files_written st))"

section \<open>\<^verbatim>\<open>PhysicalExport::ExportToCSV\<close>\<close>

fun csv_header :: "Env \<Rightarrow> PhysicalExport \<Rightarrow> nat list \<Rightarrow> ExportError + string" where
  "csv_header env ex [] = Inr []"
| "csv_header env ex (column_idx # rest) =
     (case
        (if column_idx = COLUMN_IDENTIFIER_ROW_ID env then Inr ''_row_id''
         else if column_idx = COLUMN_IDENTIFIER_CREATE env then Inr ''_create_timestamp''
         else if column_idx = COLUMN_IDENTIFIER_DELETE env then Inr ''_delete_timestamp''
         else if column_idx < length (column_defs ex)
         then Inr (name (column_defs ex ! column_idx))
         else Inl (OutOfBoundsAccess column_idx))
      of Inl e \<Rightarrow> Inl e
       | Inr column_name \<Rightarrow>
           (case csv_header env ex rest of
              Inl e \<Rightarrow> Inl e
            | Inr header \<Rightarrow>
                Inr (column_name @ (if rest \<noteq> [] then [delimiter' ex] else [CHR 0x0A])
                     @ header)))"

definition csv_cell :: "Value \<Rightarrow> string" where
  "csv_cell v =
     (if value_type v = kEmbedding \<or> value_type v = kMultiVector \<or> value_type v = kTensor
         \<or> value_type v = kTensorArray \<or> value_type v = kSparse
      then [CHR 0x22] @ ToString v @ [CHR 0x22]
      else ToString v)"

fun csv_line :: "PhysicalExport \<Rightarrow> ColumnVector list \<Rightarrow> nat \<Rightarrow> ExportError + string" where
  "csv_line ex [] row_idx = Inr []"
| "csv_line ex (column_vector # rest) row_idx =
     (case GetValue column_vector row_idx of
        Inl e \<Rightarrow> Inl e
      | Inr v \<Rightarrow>
          (case csv_line ex rest row_idx of
             Inl e \<Rightarrow> Inl e
           | Inr line \<Rightarrow>
               Inr (csv_cell v @ (if rest = [] then [CHR 0x0A] else [delimiter' ex]) @ line)))"

definition ExportToCSV ::
  "Env \<Rightarrow> PhysicalExport \<Rightarrow> ExportError + (nat \<times> (string \<times> string) list)" where
  "ExportToCSV env ex =
     (let select_columns = select_columns_of ex
      in case open_primary env ex of
           Inl e \<Rightarrow> Inl e
         | Inr st0 \<Rightarrow>
             (case (if header' ex
                    then (case csv_header env ex select_columns of
                            Inl e \<Rightarrow> Inl e
                          | Inr header \<Rightarrow> Inr (Append header st0))
                    else Inr st0)
              of Inl e \<Rightarrow> Inl e
               | Inr st1 \<Rightarrow>
                   sink_result
                     (export_segments env ex
                        (\<lambda>segment_id block_entry.
                           materialize_columns env segment_id block_entry select_columns)
                        (csv_line ex) st1)))"

section \<open>\<^verbatim>\<open>PhysicalExport::ExportToJSONL\<close>\<close>

text \<open>
  The JSON library and \<^verbatim>\<open>Value::AppendToJson\<close> are outside this file: the empty
  object, the attachment of a value under a name, and \<^verbatim>\<open>dump()\<close> are parameters.
\<close>

record 'j JsonLib =
  json_empty :: 'j
  AppendToJson :: "Value \<Rightarrow> string \<Rightarrow> 'j \<Rightarrow> 'j"
  dump :: "'j \<Rightarrow> string"

fun jsonl_columns ::
  "'j JsonLib \<Rightarrow> Env \<Rightarrow> PhysicalExport \<Rightarrow> nat list \<Rightarrow> ColumnVector list \<Rightarrow> nat \<Rightarrow> 'j
     \<Rightarrow> ExportError + 'j" where
  "jsonl_columns js env ex (select_column_idx # ids) (column_vector # cvs) row_idx line_json =
     (case
        (if select_column_idx = COLUMN_IDENTIFIER_ROW_ID env then Inr ''_row_id''
         else if select_column_idx = COLUMN_IDENTIFIER_CREATE env then Inr ''_create_timestamp''
         else if select_column_idx = COLUMN_IDENTIFIER_DELETE env then Inr ''_delete_timestamp''
         else if select_column_idx < length (column_defs ex)
         then Inr (name (column_defs ex ! select_column_idx))
         else Inl (OutOfBoundsAccess select_column_idx))
      of Inl e \<Rightarrow> Inl e
       | Inr column_name \<Rightarrow>
           (case GetValue column_vector row_idx of
              Inl e \<Rightarrow> Inl e
            | Inr v \<Rightarrow>
                jsonl_columns js env ex ids cvs row_idx (AppendToJson js v column_name line_json)))"
| "jsonl_columns js env ex _ _ row_idx line_json = Inr line_json"

definition jsonl_line ::
  "'j JsonLib \<Rightarrow> Env \<Rightarrow> PhysicalExport \<Rightarrow> ColumnVector list \<Rightarrow> nat \<Rightarrow> ExportError + string" where
  "jsonl_line js env ex column_vectors row_idx =
     (case jsonl_columns js env ex (select_columns_of ex) column_vectors row_idx (json_empty js) of
        Inl e \<Rightarrow> Inl e
      | Inr line_json \<Rightarrow> Inr (dump js line_json @ [CHR 0x0A]))"

definition ExportToJSONL ::
  "'j JsonLib \<Rightarrow> Env \<Rightarrow> PhysicalExport \<Rightarrow> ExportError + (nat \<times> (string \<times> string) list)" where
  "ExportToJSONL js env ex =
     (case open_primary env ex of
        Inl e \<Rightarrow> Inl e
      | Inr st0 \<Rightarrow>
          sink_result
            (export_segments env ex
               (\<lambda>segment_id block_entry.
                  materialize_columns env segment_id block_entry (select_columns_of ex))
               (jsonl_line js env ex) st0))"

section \<open>\<^verbatim>\<open>PhysicalExport::ExportToFVECS\<close>\<close>

text \<open>
  \<^verbatim>\<open>i32 dimension = embedding_type_info->Dimension()\<close> narrows the dimension to 32
  bits; \<^verbatim>\<open>Append(&dimension, sizeof(dimension))\<close> writes its four bytes as they lie in
  memory, least significant first on the little-endian targets of the build.
\<close>

definition i32_bytes :: "32 word \<Rightarrow> 8 word list" where
  "i32_bytes w = [ucast w, ucast (drop_bit 8 w), ucast (drop_bit 16 w), ucast (drop_bit 24 w)]"

definition fvecs_fetch :: "nat \<Rightarrow> nat \<Rightarrow> BlockEntry \<Rightarrow> ExportError + ColumnVector" where
  "fvecs_fetch exported_column_idx segment_id block_entry =
     (if length (GetConstColumnVector block_entry exported_column_idx)
           \<noteq> block_row_count block_entry
      then Inl (UnrecoverableError ''Unmatched row_count between block and block_column'')
      else Inr (GetConstColumnVector block_entry exported_column_idx))"

definition fvecs_record :: "nat \<Rightarrow> ColumnVector \<Rightarrow> nat \<Rightarrow> ExportError + 8 word list" where
  "fvecs_record dimension exported_column_vector row_idx =
     (case GetValue exported_column_vector row_idx of
        Inl e \<Rightarrow> Inl e
      | Inr v \<Rightarrow> Inr (i32_bytes (of_nat dimension) @ GetEmbedding v))"

text \<open>
  The checks made before anything is opened. The result is the exported column and its
  dimension. The two messages that end in a formatted type name are kept up to that
  name.
\<close>

definition fvecs_checks :: "PhysicalExport \<Rightarrow> ExportError + (nat \<times> nat)" where
  "fvecs_checks ex =
     (if length (column_idx_array' ex) \<noteq> 1
      then Inl (UnrecoverableError
                  ''Only one column with embedding data type can be exported as FVECS file'')
      else (let exported_column_idx = column_idx_array' ex ! 0
            in if \<not> exported_column_idx < length (column_defs ex)
               then Inl (OutOfBoundsAccess exported_column_idx)
               else (let data_type = column_type (column_defs ex ! exported_column_idx)
                     in if logical_type data_type \<noteq> kEmbedding
                        then Inl (UnrecoverableError
                                    ''Only embedding column can be exported as FVECS file'')
                        else (case type_info data_type of
                                EmbeddingInfo elem_type dimension \<Rightarrow>
                                  (if elem_type = kElemFloat
                                   then Inr (exported_column_idx, dimension)
                                   else Inl (RecoverableError NotSupport))
                              | _ \<Rightarrow> Inl InvalidCast))))"

definition ExportToFVECS ::
  "Env \<Rightarrow> PhysicalExport \<Rightarrow> ExportError + (nat \<times> (string \<times> 8 word list) list)" where
  "ExportToFVECS env ex =
     (case fvecs_checks ex of
        Inl e \<Rightarrow> Inl e
      | Inr (exported_column_idx, dimension) \<Rightarrow>
          (case open_primary env ex of
             Inl e \<Rightarrow> Inl e
           | Inr st0 \<Rightarrow>
               sink_result
                 (export_segments env ex (fvecs_fetch exported_column_idx)
                    (fvecs_record dimension) st0)))"


section \<open>\<^verbatim>\<open>PhysicalExport::ExportToPARQUET\<close>\<close>

text \<open>
  An Arrow array is represented by the builder that was finished into it and the values
  appended to that builder (\<^verbatim>\<open>Value::AppendToArrowArray\<close> is outside this file); a
  record batch by its row count and its arrays. A Parquet file is its path and the
  batches written to it; all files of one export carry the schema built before the scan.
\<close>

record ArrowArray =
  array_builder :: ArrayBuilder
  array_values :: "Value list"

record RecordBatch =
  num_rows :: nat
  batch_columns :: "ArrowArray list"

record 'a ParquetState = "'a SinkState" +
  switch_to_new_file :: bool

fun parquet_fields ::
  "PhysicalExport \<Rightarrow> nat list \<Rightarrow> ExportError + (string \<times> ArrowType) list" where
  "parquet_fields ex [] = Inr []"
| "parquet_fields ex (column_id # rest) =
     (if \<not> column_id < length (column_defs ex) then Inl (OutOfBoundsAccess column_id)
      else (let column_def = column_defs ex ! column_id
            in case GetArrowType column_def of
                 Inl e \<Rightarrow> Inl e
               | Inr arrow_type \<Rightarrow>
                   (case parquet_fields ex rest of
                      Inl e \<Rightarrow> Inl e
                    | Inr arrow_fields \<Rightarrow> Inr ((name column_def, arrow_type) # arrow_fields))))"

fun get_values :: "ColumnVector \<Rightarrow> nat list \<Rightarrow> ExportError + Value list" where
  "get_values column_vector [] = Inr []"
| "get_values column_vector (idx # rest) =
     (case GetValue column_vector idx of
        Inl e \<Rightarrow> Inl e
      | Inr v \<Rightarrow>
          (case get_values column_vector rest of
             Inl e \<Rightarrow> Inl e
           | Inr vs \<Rightarrow> Inr (v # vs)))"

definition BuildArrowArray ::
  "ColumnDef \<Rightarrow> ColumnVector \<Rightarrow> nat list \<Rightarrow> ExportError + ArrowArray" where
  "BuildArrowArray column_def column_vector block_rows_for_output =
     (case BuildArrowArray_builder column_def of
        Inl e \<Rightarrow> Inl e
      | Inr builder \<Rightarrow>
          (case get_values column_vector block_rows_for_output of
             Inl e \<Rightarrow> Inl e
           | Inr vs \<Rightarrow> Inr \<lparr>array_builder = builder, array_values = vs\<rparr>))"

fun build_block_arrays ::
  "PhysicalExport \<Rightarrow> nat list \<Rightarrow> ColumnVector list \<Rightarrow> nat list
     \<Rightarrow> ExportError + ArrowArray list" where
  "build_block_arrays ex (select_column_idx # ids) (column_vector # cvs) rows =
     (if \<not> select_column_idx < length (column_defs ex)
      then Inl (OutOfBoundsAccess select_column_idx)
      else (case BuildArrowArray (column_defs ex ! select_column_idx) column_vector rows of
              Inl e \<Rightarrow> Inl e
            | Inr a \<Rightarrow>
                (case build_block_arrays ex ids cvs rows of
                   Inl e \<Rightarrow> Inl e
                 | Inr block_arrays \<Rightarrow> Inr (a # block_arrays))))"
| "build_block_arrays ex _ _ rows = Inr []"

text \<open>
  \<^verbatim>\<open>init_file_stream_writer\<close> resets the writer and the stream and opens both on the
  given path.
\<close>

definition init_file_stream_writer ::
  "Env \<Rightarrow> string \<Rightarrow> ExportError + (string \<times> RecordBatch list)" where
  "init_file_stream_writer env output_file_path =
     (if \<not> FileOutputStream_Open_ok env output_file_path then Inl (RecoverableError IOError)
      else if \<not> FileWriter_Open_ok env output_file_path then Inl (RecoverableError IOError)
      else Inr (output_file_path, []))"

text \<open>
  The inner loop of \<^verbatim>\<open>consume_block\<close>. It collects the rows of the next batch and
  leaves the index on the row at which it broke off, or on \<open>block_row_count\<close>. The
  result is the index, \<^verbatim>\<open>block_rows_for_output\<close>, \<^verbatim>\<open>need_switch_to_new_file\<close>,
  \<^verbatim>\<open>offset\<close> and \<^verbatim>\<open>row_count\<close>.
\<close>

function collect_rows ::
  "PhysicalExport \<Rightarrow> (nat \<Rightarrow> bool) \<Rightarrow> nat \<Rightarrow> nat \<Rightarrow> nat \<Rightarrow> nat list \<Rightarrow> nat \<Rightarrow> nat
     \<Rightarrow> nat \<times> nat list \<times> bool \<times> nat \<times> nat" where
  "collect_rows ex visible_fn seg_off block_rows start_block_row_idx rows off rc =
     (if start_block_row_idx < block_rows then
        (if \<not> visible_fn (seg_off + start_block_row_idx)
         then collect_rows ex visible_fn seg_off block_rows (start_block_row_idx + 1) rows off rc
         else if off > 0
         then collect_rows ex visible_fn seg_off block_rows (start_block_row_idx + 1) rows
                (off - 1) rc
         else if row_limit' ex \<noteq> 0 \<and> (rc + 1) mod row_limit' ex = 0
         then (start_block_row_idx, rows @ [start_block_row_idx], True, off, rc + 1)
         else if rc + 1 = limit' ex
         then (start_block_row_idx, rows @ [start_block_row_idx], False, off, rc + 1)
         else collect_rows ex visible_fn seg_off block_rows (start_block_row_idx + 1)
                (rows @ [start_block_row_idx]) off (rc + 1))
      else (start_block_row_idx, rows, False, off, rc))"
  by pat_completeness auto
termination
  by (relation "measure (\<lambda>(ex, visible_fn, seg_off, block_rows, idx, rows, off, rc).
                            block_rows - idx)") auto

declare collect_rows.simps [simp del]

lemma collect_rows_end:
  "\<not> i < n \<Longrightarrow> collect_rows ex vf so n i rows off rc = (i, rows, False, off, rc)"
  by (simp add: collect_rows.simps [of _ _ _ _ i])

lemma collect_rows_invisible:
  "i < n \<Longrightarrow> \<not> vf (so + i) \<Longrightarrow>
   collect_rows ex vf so n i rows off rc = collect_rows ex vf so n (Suc i) rows off rc"
  by (simp add: collect_rows.simps [of _ _ _ _ i])

lemma collect_rows_skip:
  "i < n \<Longrightarrow> vf (so + i) \<Longrightarrow> 0 < off \<Longrightarrow>
   collect_rows ex vf so n i rows off rc = collect_rows ex vf so n (Suc i) rows (off - 1) rc"
  by (simp add: collect_rows.simps [of _ _ _ _ i])

lemma collect_rows_push:
  "i < n \<Longrightarrow> vf (so + i) \<Longrightarrow>
   collect_rows ex vf so n i rows 0 rc =
     (if row_limit' ex \<noteq> 0 \<and> Suc rc mod row_limit' ex = 0
      then (i, rows @ [i], True, 0, Suc rc)
      else if Suc rc = limit' ex then (i, rows @ [i], False, 0, Suc rc)
      else collect_rows ex vf so n (Suc i) (rows @ [i]) 0 (Suc rc))"
  by (simp add: collect_rows.simps [of _ _ _ _ i])

lemma collect_rows_index:
  "collect_rows ex vf so n i rows off rc = (i', rows', need, off', rc') \<Longrightarrow> i \<le> i'"
proof (induction ex vf so n i rows off rc rule: collect_rows.induct)
  case (1 ex vf so n i rows off rc)
  show ?case
  proof (cases "i < n")
    case False
    with "1.prems" show ?thesis by (simp add: collect_rows_end)
  next
    case lt: True
    show ?thesis
    proof (cases "vf (so + i)")
      case False
      with lt "1.prems" have "collect_rows ex vf so n (i + 1) rows off rc = (i', rows', need, off', rc')"
        by (simp add: collect_rows_invisible)
      from "1.IH"(1) [OF lt False this] show ?thesis by simp
    next
      case vis: True
      show ?thesis
      proof (cases "off > 0")
        case True
        with lt vis "1.prems" have "collect_rows ex vf so n (i + 1) rows (off - 1) rc = (i', rows', need, off', rc')"
          by (simp add: collect_rows_skip)
        from "1.IH"(2) [OF lt _ True this] vis show ?thesis by simp
      next
        case False
        then have off0: "off = 0" by simp
        show ?thesis
        proof (cases "(row_limit' ex \<noteq> 0 \<and> (rc + 1) mod row_limit' ex = 0) \<or> rc + 1 = limit' ex")
          case True
          with lt vis "1.prems" show ?thesis
            unfolding off0 by (auto simp add: collect_rows_push split: if_splits)
        next
          case stop: False
          with lt vis "1.prems" have "collect_rows ex vf so n (i + 1) (rows @ [i]) off (rc + 1) = (i', rows', need, off', rc')"
            unfolding off0 by (auto simp add: collect_rows_push split: if_splits)
          from "1.IH"(3) [OF lt _ False _ _ this] vis stop show ?thesis by auto
        qed
      qed
    qed
  qed
qed

text \<open>The switch to a new part file, made before a batch is written.\<close>

definition switch_file ::
  "Env \<Rightarrow> PhysicalExport \<Rightarrow> RecordBatch ParquetState \<Rightarrow> ExportError + RecordBatch ParquetState" where
  "switch_file env ex st =
     (if \<not> Close_ok env (fst (file_handle st)) then Inl (RecoverableError IOError)
      else (let n = file_no' st + 1
            in case init_file_stream_writer env (part_file_path (file_path' ex) n) of
                 Inl e \<Rightarrow> Inl e
               | Inr w \<Rightarrow>
                   Inr (st\<lparr>file_no' := n,
                           closed_files := closed_files st @ [file_handle st],
                           file_handle := w\<rparr>)))"

text \<open>
  The outer loop of \<^verbatim>\<open>consume_block\<close>, from a row index on. \<^verbatim>\<open>return false\<close> is
  \<open>LabelReturn\<close>: the caller jumps to \<^verbatim>\<open>label_return\<close> on it.
\<close>

function consume_block_from ::
  "Env \<Rightarrow> PhysicalExport \<Rightarrow> ColumnVector list \<Rightarrow> (nat \<Rightarrow> bool) \<Rightarrow> nat \<Rightarrow> nat \<Rightarrow> nat
     \<Rightarrow> RecordBatch ParquetState \<Rightarrow> ExportError + (loop_ctl \<times> RecordBatch ParquetState)" where
  "consume_block_from env ex column_vectors visible_fn seg_off block_rows start_block_row_idx st =
     (if start_block_row_idx < block_rows then
        (case collect_rows ex visible_fn seg_off block_rows start_block_row_idx []
                (offset st) (row_count st) of
           (idx, block_rows_for_output, need_switch_to_new_file, off, rc) \<Rightarrow>
             (let st1 = st\<lparr>offset := off, row_count := rc\<rparr>
              in if block_rows_for_output = []
                 then consume_block_from env ex column_vectors visible_fn seg_off block_rows
                        (idx + 1) st1
                 else (case (if switch_to_new_file st1 then switch_file env ex st1 else Inr st1) of
                         Inl e \<Rightarrow> Inl e
                       | Inr st2 \<Rightarrow>
                           (case build_block_arrays ex (select_columns_of ex) column_vectors
                                   block_rows_for_output of
                              Inl e \<Rightarrow> Inl e
                            | Inr block_arrays \<Rightarrow>
                                if \<not> WriteRecordBatch_ok env (fst (file_handle st2))
                                then Inl (RecoverableError IOError)
                                else (let block_batch =
                                            \<lparr>num_rows = length block_rows_for_output,
                                             batch_columns = block_arrays\<rparr>;
                                          st3 = (Append [block_batch] st2)
                                                  \<lparr>switch_to_new_file := need_switch_to_new_file\<rparr>
                                      in if row_count st3 = limit' ex
                                         then Inr (LabelReturn, st3)
                                         else consume_block_from env ex column_vectors visible_fn
                                                seg_off block_rows (idx + 1) st3)))))
      else Inr (Continue, st))"
  by pat_completeness auto
termination
  by (relation "measure (\<lambda>(env, ex, cvs, visible_fn, seg_off, block_rows, idx, st).
                            block_rows - idx)")
     (auto dest!: collect_rows_index [OF sym])

declare consume_block_from.simps [simp del]

definition consume_block ::
  "Env \<Rightarrow> PhysicalExport \<Rightarrow> ColumnVector list \<Rightarrow> (nat \<Rightarrow> bool) \<Rightarrow> nat \<Rightarrow> nat
     \<Rightarrow> RecordBatch ParquetState \<Rightarrow> ExportError + (loop_ctl \<times> RecordBatch ParquetState)" where
  "consume_block env ex column_vectors visible_fn seg_off block_rows st =
     consume_block_from env ex column_vectors visible_fn seg_off block_rows 0 st"

definition parquet_block ::
  "Env \<Rightarrow> PhysicalExport \<Rightarrow> nat \<Rightarrow> SegmentSnapshot \<Rightarrow> BlockEntry \<Rightarrow> RecordBatch ParquetState
     \<Rightarrow> ExportError + (loop_ctl \<times> RecordBatch ParquetState)" where
  "parquet_block env ex segment_id segment_snapshot block_entry st =
     (case materialize_columns env segment_id block_entry (select_columns_of ex) of
        Inl e \<Rightarrow> Inl e
      | Inr column_vectors \<Rightarrow>
          consume_block env ex column_vectors (visible segment_snapshot)
            (segment_offset block_entry) (block_row_count block_entry) st)"

definition parquet_segments ::
  "Env \<Rightarrow> PhysicalExport \<Rightarrow> RecordBatch ParquetState
     \<Rightarrow> ExportError + (loop_ctl \<times> RecordBatch ParquetState)" where
  "parquet_segments env ex st =
     for_each (\<lambda>(segment_id, segment_snapshot).
                 for_each (parquet_block env ex segment_id segment_snapshot)
                          (block_map' segment_snapshot))
       (segment_block_index' ex) st"

text \<open>
  The result is the row count, the schema, and the files written with their batches.
  The writer open at \<^verbatim>\<open>label_return\<close> is closed there.
\<close>

definition ExportToPARQUET ::
  "Env \<Rightarrow> PhysicalExport
     \<Rightarrow> ExportError + (nat \<times> (string \<times> ArrowType) list \<times> (string \<times> RecordBatch list) list)" where
  "ExportToPARQUET env ex =
     (case parquet_fields ex (select_columns_of ex) of
        Inl e \<Rightarrow> Inl e
      | Inr schema \<Rightarrow>
          (case make_parent_directory env ex of
             Inl e \<Rightarrow> Inl e
           | Inr u \<Rightarrow>
               (case init_file_stream_writer env (file_path' ex) of
                  Inl e \<Rightarrow> Inl e
                | Inr w \<Rightarrow>
                    (case parquet_segments env ex
                            \<lparr>offset = offset' ex, row_count = 0, file_no' = 0,
                             closed_files = [], file_handle = w,
                             switch_to_new_file = False\<rparr> of
                       Inl e \<Rightarrow> Inl e
                     | Inr (c, st) \<Rightarrow>
                         if \<not> Close_ok env (fst (file_handle st))
                         then Inl (RecoverableError IOError)
                         else Inr (row_count st, schema, files_written st)))))"



section \<open>What a sink is expected to write\<close>

text \<open>
  The rows of the snapshot that pass the delete filter, in scan order: segment by
  segment, block by block, row by row. A row is named by its segment id, its block and
  its index in the block.
\<close>

definition block_visible_rows ::
  "nat \<Rightarrow> SegmentSnapshot \<Rightarrow> BlockEntry \<Rightarrow> (nat \<times> BlockEntry \<times> nat) list" where
  "block_visible_rows segment_id seg b =
     map (\<lambda>i. (segment_id, b, i))
         (filter (\<lambda>i. visible seg (segment_offset b + i)) [0..<block_row_count b])"

definition segment_visible_rows ::
  "nat \<times> SegmentSnapshot \<Rightarrow> (nat \<times> BlockEntry \<times> nat) list" where
  "segment_visible_rows s =
     concat (map (block_visible_rows (fst s) (snd s)) (block_map' (snd s)))"

definition visible_rows :: "PhysicalExport \<Rightarrow> (nat \<times> BlockEntry \<times> nat) list" where
  "visible_rows ex = concat (map segment_visible_rows (segment_block_index' ex))"

text \<open>Skip \<open>offset\<close> of them, then keep \<open>limit\<close> of the rest (all of it when the limit is 0).\<close>

definition take_limit :: "nat \<Rightarrow> 'a list \<Rightarrow> 'a list" where
  "take_limit l xs = (if l = 0 then xs else take l xs)"

definition selected_rows :: "PhysicalExport \<Rightarrow> (nat \<times> BlockEntry \<times> nat) list" where
  "selected_rows ex = take_limit (limit' ex) (drop (offset' ex) (visible_rows ex))"

text \<open>
  Splitting by a per-file row limit \<open>k\<close>: one chunk when \<open>k\<close> is 0 or at most \<open>k\<close>
  elements are left, else the first \<open>k\<close> elements and the chunks of the rest.
\<close>

function chunk :: "nat \<Rightarrow> 'a list \<Rightarrow> 'a list list" where
  "chunk k xs = (if k = 0 \<or> length xs \<le> k then [xs] else take k xs # chunk k (drop k xs))"
  by pat_completeness auto
termination
  by (relation "measure (\<lambda>(k, xs). length xs)") auto

declare chunk.simps [simp del]

text \<open>
  The files of an export: chunk \<open>j\<close> goes to the \<open>j\<close>-th file, the base path for
  \<open>j = 0\<close> and \<open>{path}.part{j}\<close> after it; the first file starts with the header.
\<close>

definition nth_file_path :: "string \<Rightarrow> nat \<Rightarrow> string" where
  "nth_file_path path j = (if j = 0 then path else part_file_path path j)"

definition assemble :: "string \<Rightarrow> 'a list \<Rightarrow> 'a list list list \<Rightarrow> (string \<times> 'a list) list" where
  "assemble path hdr chunks =
     map (\<lambda>(j, c). (nth_file_path path j, (if j = 0 then hdr else []) @ concat c))
         (enumerate 0 chunks)"

definition expected_files ::
  "PhysicalExport \<Rightarrow> 'a list \<Rightarrow> ((nat \<times> BlockEntry \<times> nat) \<Rightarrow> 'a list) \<Rightarrow> (string \<times> 'a list) list" where
  "expected_files ex hdr render =
     assemble (file_path' ex) hdr (chunk (row_limit' ex) (map render (selected_rows ex)))"

subsection \<open>The row loop on the visible rows alone\<close>

text \<open>
  What the body of the row loop does with a visible row when every file can be opened
  and the row can be rendered.
\<close>

definition write_row :: "PhysicalExport \<Rightarrow> 'a list \<Rightarrow> 'a SinkState \<Rightarrow> 'a SinkState" where
  "write_row ex line st =
     (let st1 = (if row_count st > 0 \<and> row_limit' ex \<noteq> 0 \<and> row_count st mod row_limit' ex = 0
                 then st\<lparr>file_no' := file_no' st + 1,
                         closed_files := closed_files st @ [file_handle st],
                         file_handle := (part_file_path (file_path' ex) (file_no' st + 1), [])\<rparr>
                 else st)
      in (Append line st1)\<lparr>row_count := row_count st1 + 1\<rparr>)"

fun feed :: "PhysicalExport \<Rightarrow> 'a list list \<Rightarrow> 'a SinkState \<Rightarrow> loop_ctl \<times> 'a SinkState" where
  "feed ex [] st = (Continue, st)"
| "feed ex (line # rest) st =
     (if offset st > 0 then feed ex rest (st\<lparr>offset := offset st - 1\<rparr>)
      else (let st' = write_row ex line st
            in if limit' ex \<noteq> 0 \<and> row_count st' = limit' ex then (LabelReturn, st')
               else feed ex rest st'))"

definition write_rows :: "PhysicalExport \<Rightarrow> 'a list list \<Rightarrow> 'a SinkState \<Rightarrow> 'a SinkState" where
  "write_rows ex rows st = foldl (\<lambda>s line. write_row ex line s) st rows"


subsection \<open>The columns of a row and their text\<close>

text \<open>
  The column vector that the block loop fetches for a selected column, and the name
  under which the column appears in a header or a JSON record.
\<close>

definition column_vector_of :: "Env \<Rightarrow> nat \<Rightarrow> BlockEntry \<Rightarrow> nat \<Rightarrow> ColumnVector" where
  "column_vector_of env segment_id b c =
     (if c = COLUMN_IDENTIFIER_ROW_ID env then row_id_vector env segment_id b
      else if c = COLUMN_IDENTIFIER_CREATE env then GetCreateTSVector b 0 (block_row_count b)
      else if c = COLUMN_IDENTIFIER_DELETE env then GetDeleteTSVector b 0 (block_row_count b)
      else GetConstColumnVector b c)"

definition column_name :: "Env \<Rightarrow> PhysicalExport \<Rightarrow> nat \<Rightarrow> string" where
  "column_name env ex c =
     (if c = COLUMN_IDENTIFIER_ROW_ID env then ''_row_id''
      else if c = COLUMN_IDENTIFIER_CREATE env then ''_create_timestamp''
      else if c = COLUMN_IDENTIFIER_DELETE env then ''_delete_timestamp''
      else name (column_defs ex ! c))"

definition row_values :: "Env \<Rightarrow> PhysicalExport \<Rightarrow> nat \<times> BlockEntry \<times> nat \<Rightarrow> Value list" where
  "row_values env ex r =
     (case r of (segment_id, b, i) \<Rightarrow>
        map (\<lambda>c. column_vector_of env segment_id b c ! i) (select_columns_of ex))"

text \<open>
  A line of delimited text, in the words of the specification: the fields separated by
  the delimiter, terminated by a newline.
\<close>

fun delimited :: "char \<Rightarrow> string list \<Rightarrow> string" where
  "delimited d [] = []"
| "delimited d [f] = f"
| "delimited d (f # fs) = f @ [d] @ delimited d fs"

definition text_line :: "char \<Rightarrow> string list \<Rightarrow> string" where
  "text_line d fs = delimited d fs @ [CHR 0x0A]"

definition csv_header_text :: "Env \<Rightarrow> PhysicalExport \<Rightarrow> string" where
  "csv_header_text env ex =
     (if header' ex
      then text_line (delimiter' ex) (map (column_name env ex) (select_columns_of ex))
      else [])"

definition csv_row_text :: "Env \<Rightarrow> PhysicalExport \<Rightarrow> nat \<times> BlockEntry \<times> nat \<Rightarrow> string" where
  "csv_row_text env ex r = text_line (delimiter' ex) (map csv_cell (row_values env ex r))"

definition jsonl_row_text ::
  "'j JsonLib \<Rightarrow> Env \<Rightarrow> PhysicalExport \<Rightarrow> nat \<times> BlockEntry \<times> nat \<Rightarrow> string" where
  "jsonl_row_text js env ex r =
     dump js (foldl (\<lambda>j (c, v). AppendToJson js v (column_name env ex c) j) (json_empty js)
                (zip (select_columns_of ex) (row_values env ex r)))
     @ [CHR 0x0A]"

definition fvecs_row_bytes :: "nat \<Rightarrow> nat \<Rightarrow> nat \<times> BlockEntry \<times> nat \<Rightarrow> 8 word list" where
  "fvecs_row_bytes dimension c r =
     (case r of (segment_id, b, i) \<Rightarrow>
        i32_bytes (of_nat dimension) @ GetEmbedding (GetConstColumnVector b c ! i))"

subsection \<open>Well-formed requests\<close>

text \<open>
  The conditions under which an export runs to its end: the file store does what it is
  asked, every selected column is a virtual column or a column of the table, and the
  storage hands out, for every block, column vectors with one value per row of the
  block.
\<close>

definition store_ok :: "Env \<Rightarrow> bool" where
  "store_ok env \<longleftrightarrow> (\<forall>p. MakeDirectory_ok env p) \<and> (\<forall>p. Open_ok env p)"

definition columns_named :: "Env \<Rightarrow> PhysicalExport \<Rightarrow> bool" where
  "columns_named env ex \<longleftrightarrow>
     select_columns_of ex \<noteq> [] \<and>
     (\<forall>c \<in> set (select_columns_of ex).
        c = COLUMN_IDENTIFIER_ROW_ID env \<or> c = COLUMN_IDENTIFIER_CREATE env \<or>
        c = COLUMN_IDENTIFIER_DELETE env \<or> c < length (column_defs ex))"

definition blocks_consistent :: "Env \<Rightarrow> PhysicalExport \<Rightarrow> bool" where
  "blocks_consistent env ex \<longleftrightarrow>
     (\<forall>s \<in> set (segment_block_index' ex). \<forall>b \<in> set (block_map' (snd s)).
        \<forall>c \<in> set (select_columns_of ex).
          length (column_vector_of env (fst s) b c) = block_row_count b)"

definition fvecs_request :: "PhysicalExport \<Rightarrow> nat \<Rightarrow> nat \<Rightarrow> bool" where
  "fvecs_request ex c dimension \<longleftrightarrow>
     column_idx_array' ex = [c] \<and> c < length (column_defs ex) \<and>
     column_type (column_defs ex ! c)
       = \<lparr>logical_type = kEmbedding, type_info = EmbeddingInfo kElemFloat dimension\<rparr> \<and>
     (\<forall>s \<in> set (segment_block_index' ex). \<forall>b \<in> set (block_map' (snd s)).
        length (GetConstColumnVector b c) = block_row_count b)"

text \<open>
  For a fetch function and a row renderer of a sink: every block can be fetched, and
  every row of it renders to the bytes that \<open>render\<close> names.
\<close>

definition rows_renderable ::
  "(nat \<Rightarrow> BlockEntry \<Rightarrow> ExportError + 'c) \<Rightarrow> ('c \<Rightarrow> nat \<Rightarrow> ExportError + 'a list)
     \<Rightarrow> (nat \<times> BlockEntry \<times> nat \<Rightarrow> 'a list) \<Rightarrow> PhysicalExport \<Rightarrow> bool" where
  "rows_renderable fetch record_of render ex \<longleftrightarrow>
     (\<forall>s \<in> set (segment_block_index' ex). \<forall>b \<in> set (block_map' (snd s)).
        \<exists>cvs. fetch (fst s) b = Inr cvs \<and>
              (\<forall>i < block_row_count b. record_of cvs i = Inr (render (fst s, b, i))))"


subsection \<open>The rows of a Parquet file\<close>

text \<open>
  Row \<open>j\<close> of a record batch takes the \<open>j\<close>-th value of every array; the rows of a
  file are those of its batches, one after the other.
\<close>

definition batch_rows :: "RecordBatch \<Rightarrow> Value list list" where
  "batch_rows batch =
     map (\<lambda>j. map (\<lambda>a. array_values a ! j) (batch_columns batch)) [0..<num_rows batch]"

definition parquet_file_rows :: "string \<times> RecordBatch list \<Rightarrow> string \<times> Value list list" where
  "parquet_file_rows f = (fst f, concat (map batch_rows (snd f)))"

definition parquet_row ::
  "Env \<Rightarrow> PhysicalExport \<Rightarrow> nat \<times> BlockEntry \<times> nat \<Rightarrow> Value list list" where
  "parquet_row env ex r = [row_values env ex r]"

text \<open>
  The state of the Parquet sink seen as a state of rows written, first between two
  batches, then with the rows of a batch that is collected but not yet written.
\<close>

definition rows_view :: "RecordBatch ParquetState \<Rightarrow> Value list SinkState" where
  "rows_view st =
     \<lparr>offset = offset st, row_count = row_count st, file_no' = file_no' st,
      closed_files = map parquet_file_rows (closed_files st),
      file_handle = parquet_file_rows (file_handle st)\<rparr>"

definition pending_view ::
  "PhysicalExport \<Rightarrow> RecordBatch ParquetState \<Rightarrow> Value list list \<Rightarrow> nat \<Rightarrow> nat
     \<Rightarrow> Value list SinkState" where
  "pending_view ex st pending off rc =
     (if pending \<noteq> [] \<and> switch_to_new_file st
      then \<lparr>offset = off, row_count = rc, file_no' = file_no' st + 1,
            closed_files = map parquet_file_rows (closed_files st @ [file_handle st]),
            file_handle = (part_file_path (file_path' ex) (file_no' st + 1), pending)\<rparr>
      else \<lparr>offset = off, row_count = rc, file_no' = file_no' st,
            closed_files = map parquet_file_rows (closed_files st),
            file_handle = (fst (file_handle st),
                           snd (parquet_file_rows (file_handle st)) @ pending)\<rparr>)"

text \<open>
  \<^verbatim>\<open>switch_to_new_file\<close> is set exactly when the rows written so far fill the last
  file.
\<close>

definition switch_pending :: "PhysicalExport \<Rightarrow> RecordBatch ParquetState \<Rightarrow> bool" where
  "switch_pending ex st \<longleftrightarrow>
     (switch_to_new_file st \<longleftrightarrow>
        row_count st > 0 \<and> row_limit' ex \<noteq> 0 \<and> row_count st mod row_limit' ex = 0)"

definition arrow_ok :: "Env \<Rightarrow> bool" where
  "arrow_ok env \<longleftrightarrow>
     (\<forall>p. MakeDirectory_ok env p) \<and> (\<forall>p. FileOutputStream_Open_ok env p) \<and>
     (\<forall>p. FileWriter_Open_ok env p) \<and> (\<forall>p. WriteRecordBatch_ok env p) \<and>
     (\<forall>p. Close_ok env p)"

definition parquet_columns_ok :: "PhysicalExport \<Rightarrow> bool" where
  "parquet_columns_ok ex \<longleftrightarrow>
     (\<forall>c \<in> set (select_columns_of ex).
        c < length (column_defs ex) \<and>
        (\<exists>t. GetArrowType (column_defs ex ! c) = Inr t) \<and>
        (\<exists>b. BuildArrowArray_builder (column_defs ex ! c) = Inr b))"


text \<open>
  The state after a batch has been written: the switch that was pending is made first,
  then the batch is appended and the flag takes the value found while collecting.
\<close>

definition batch_written ::
  "PhysicalExport \<Rightarrow> RecordBatch ParquetState \<Rightarrow> nat \<Rightarrow> nat \<Rightarrow> bool \<Rightarrow> RecordBatch
     \<Rightarrow> RecordBatch ParquetState" where
  "batch_written ex st off rc need batch =
     (Append [batch]
        (if switch_to_new_file st
         then st\<lparr>offset := off, row_count := rc, file_no' := file_no' st + 1,
                 closed_files := closed_files st @ [file_handle st],
                 file_handle := (part_file_path (file_path' ex) (file_no' st + 1), [])\<rparr>
         else st\<lparr>offset := off, row_count := rc\<rparr>))
     \<lparr>switch_to_new_file := need\<rparr>"


subsection \<open>Counts and layout\<close>

text \<open>
  The number of rows an export returns, with \<open>R\<close> visible rows, offset \<open>ofs\<close> and limit
  \<open>l\<close>: all that is left after the offset when the limit is 0, at most \<open>l\<close> of it
  otherwise. Subtraction on \<open>nat\<close> stops at 0.
\<close>

definition exported_row_count :: "PhysicalExport \<Rightarrow> nat" where
  "exported_row_count ex =
     (let R = length (visible_rows ex); ofs = offset' ex; l = limit' ex
      in if l = 0 then R - ofs else min (R - ofs) l)"

text \<open>The formula of the specification, read on the integers as it is written.\<close>

definition spec_row_count :: "int \<Rightarrow> int \<Rightarrow> int \<Rightarrow> int" where
  "spec_row_count R ofs l = min (max (R - ofs) 0) (if l > 0 then l else R - ofs)"

text \<open>
  The number of files and the rows of the \<open>j\<close>-th file, for per-file row limit \<open>k\<close>
  and \<open>n\<close> selected rows: one file when \<open>k = 0\<close> or \<open>n = 0\<close>, else \<open>n / k\<close> rounded up;
  file \<open>j\<close> holds the rows \<open>j * k\<close> to \<open>j * k + k - 1\<close>.
\<close>

definition file_count :: "PhysicalExport \<Rightarrow> nat" where
  "file_count ex =
     (if row_limit' ex = 0 \<or> selected_rows ex = [] then 1
      else (length (selected_rows ex) + row_limit' ex - 1) div row_limit' ex)"

definition file_rows :: "PhysicalExport \<Rightarrow> nat \<Rightarrow> (nat \<times> BlockEntry \<times> nat) list" where
  "file_rows ex j =
     (if row_limit' ex = 0 then selected_rows ex
      else take (row_limit' ex) (drop (j * row_limit' ex) (selected_rows ex)))"

text \<open>\<open>n / k\<close> rounded up, as the specification counts the files.\<close>

definition spec_file_count :: "nat \<Rightarrow> nat \<Rightarrow> nat" where
  "spec_file_count n k = (n + k - 1) div k"

definition text_request :: "Env \<Rightarrow> PhysicalExport \<Rightarrow> bool" where
  "text_request env ex \<longleftrightarrow> store_ok env \<and> columns_named env ex \<and> blocks_consistent env ex"

definition parquet_request :: "Env \<Rightarrow> PhysicalExport \<Rightarrow> bool" where
  "parquet_request env ex \<longleftrightarrow> arrow_ok env \<and> parquet_columns_ok ex \<and> blocks_consistent env ex"


section \<open>Concrete tables\<close>

text \<open>
  An environment in which every call into the file store and the Parquet library
  succeeds, with the virtual column identifiers at the top of the 64-bit range.
\<close>

definition text_value :: "LogicalType \<Rightarrow> string \<Rightarrow> Value" where
  "text_value t s = \<lparr>value_type = t, ToString = s, GetEmbedding = []\<rparr>"

definition demo_env :: Env where
  "demo_env =
     \<lparr>COLUMN_IDENTIFIER_ROW_ID = 18446744073709551615,
      COLUMN_IDENTIFIER_CREATE = 18446744073709551614,
      COLUMN_IDENTIFIER_DELETE = 18446744073709551613,
      DEFAULT_BLOCK_CAPACITY = 8192,
      RowID_Value = (\<lambda>segment_id off. text_value kRowID (show_nat segment_id @ '':'' @ show_nat off)),
      GetParentPath = (\<lambda>p. ''/tmp''),
      MakeDirectory_ok = (\<lambda>p. True),
      Open_ok = (\<lambda>p. True),
      FileOutputStream_Open_ok = (\<lambda>p. True),
      FileWriter_Open_ok = (\<lambda>p. True),
      WriteRecordBatch_ok = (\<lambda>p. True),
      Close_ok = (\<lambda>p. True)\<rparr>"

text \<open>
  The table of the text scenario: columns \<open>id\<close> (integer) and \<open>name\<close> (text), one
  segment with one block of the three rows \<open>(1, a)\<close>, \<open>(2, b)\<close>, \<open>(3, c)\<close>.
\<close>

definition demo_block :: BlockEntry where
  "demo_block =
     \<lparr>block_id = 0, segment_offset = 0, block_row_count = 3,
      GetConstColumnVector =
        (\<lambda>c. if c = 0 then [text_value kInteger ''1'', text_value kInteger ''2'',
                              text_value kInteger ''3'']
              else if c = 1 then [text_value kVarchar ''a'', text_value kVarchar ''b'',
                                   text_value kVarchar ''c'']
              else []),
      GetCreateTSVector = (\<lambda>from n. replicate n (text_value kBigInt ''1'')),
      GetDeleteTSVector = (\<lambda>from n. replicate n (text_value kBigInt ''0''))\<rparr>"

definition demo_columns :: "ColumnDef list" where
  "demo_columns =
     [\<lparr>name = ''id'', column_type = \<lparr>logical_type = kInteger, type_info = NoTypeInfo\<rparr>\<rparr>,
      \<lparr>name = ''name'', column_type = \<lparr>logical_type = kVarchar, type_info = NoTypeInfo\<rparr>\<rparr>]"

definition all_visible :: "nat \<Rightarrow> bool" where
  "all_visible i = True"

definition second_deleted :: "nat \<Rightarrow> bool" where
  "second_deleted i = (i \<noteq> 1)"

definition none_visible :: "nat \<Rightarrow> bool" where
  "none_visible i = False"

text \<open>
  A request on this table, by its delete filter, offset, limit and per-file row limit.
  \<open>demo_table\<close> is the request of the scenario: every row visible, no offset, no
  limit, a single file.
\<close>

definition demo_request :: "(nat \<Rightarrow> bool) \<Rightarrow> nat \<Rightarrow> nat \<Rightarrow> nat \<Rightarrow> PhysicalExport" where
  "demo_request vis ofs lim k =
     \<lparr>file_path' = ''/tmp/t.csv'', header' = True, delimiter' = CHR '','',
      offset' = ofs, limit' = lim, row_limit' = k, column_idx_array' = [],
      column_defs = demo_columns,
      segment_block_index' = [(0, \<lparr>visible = vis, block_map' = [demo_block]\<rparr>)]\<rparr>"

definition demo_table :: PhysicalExport where
  "demo_table = demo_request all_visible 0 0 0"

text \<open>
  The table of the vector scenario: one embedding column of two 32-bit floats, with the
  rows \<open>[1.0, 2.0]\<close> and \<open>[3.0, 4.0]\<close> stored as their little-endian IEEE-754 bytes.
\<close>

definition demo_vector_block :: BlockEntry where
  "demo_vector_block =
     \<lparr>block_id = 0, segment_offset = 0, block_row_count = 2,
      GetConstColumnVector =
        (\<lambda>c. if c = 0
              then [\<lparr>value_type = kEmbedding, ToString = ''[1,2]'',
                     GetEmbedding = [0x00, 0x00, 0x80, 0x3F, 0x00, 0x00, 0x00, 0x40]\<rparr>,
                    \<lparr>value_type = kEmbedding, ToString = ''[3,4]'',
                     GetEmbedding = [0x00, 0x00, 0x40, 0x40, 0x00, 0x00, 0x80, 0x40]\<rparr>]
              else []),
      GetCreateTSVector = (\<lambda>from n. replicate n (text_value kBigInt ''1'')),
      GetDeleteTSVector = (\<lambda>from n. replicate n (text_value kBigInt ''0''))\<rparr>"

definition demo_vector_columns :: "ColumnDef list" where
  "demo_vector_columns =
     [\<lparr>name = ''v'',
       column_type = \<lparr>logical_type = kEmbedding, type_info = EmbeddingInfo kElemFloat 2\<rparr>\<rparr>]"


definition demo_vectors_request :: "nat list \<Rightarrow> nat \<Rightarrow> nat \<Rightarrow> nat \<Rightarrow> PhysicalExport" where
  "demo_vectors_request cols ofs lim k =
     \<lparr>file_path' = ''/tmp/v.fvecs'', header' = False, delimiter' = CHR '','',
      offset' = ofs, limit' = lim, row_limit' = k, column_idx_array' = cols,
      column_defs = demo_vector_columns,
      segment_block_index' =
        [(0, \<lparr>visible = all_visible, block_map' = [demo_vector_block]\<rparr>)]\<rparr>"


text \<open>A JSON library for the concrete runs: an object is the text of its attributes.\<close>

definition demo_json :: "string JsonLib" where
  "demo_json =
     \<lparr>json_empty = [],
      AppendToJson = (\<lambda>v column_name j. j @ column_name @ ''='' @ ToString v @ '';''),
      dump = (\<lambda>j. ''{'' @ j @ ''}'')\<rparr>"


section \<open>The scan and the files it writes\<close>

lemma feed_append:
  "feed ex (xs @ ys) st =
     (case feed ex xs st of (LabelReturn, s) \<Rightarrow> (LabelReturn, s) | (Continue, s) \<Rightarrow> feed ex ys s)"
  by (induction xs arbitrary: st) (auto simp: Let_def)

lemma for_each_feed:
  assumes step: "\<And>x s. x \<in> set xs \<Longrightarrow> I s \<Longrightarrow>
            \<exists>c s'. body x s = Inr (c, s') \<and> feed ex (g x) (\<alpha> s) = (c, \<alpha> s') \<and> I s'"
      and "I s"
  shows "\<exists>c s'. for_each body xs s = Inr (c, s') \<and>
                 feed ex (concat (map g xs)) (\<alpha> s) = (c, \<alpha> s') \<and> I s'"
  using assms
proof (induction xs arbitrary: s)
  case Nil
  then show ?case by simp
next
  case (Cons x xs)
  from Cons.prems(1) [of x s] Cons.prems(2)
  obtain c s' where b: "body x s = Inr (c, s')" and f: "feed ex (g x) (\<alpha> s) = (c, \<alpha> s')"
    and i: "I s'" by auto
  show ?case
  proof (cases c)
    case LabelReturn
    with b f i show ?thesis by (auto simp: feed_append)
  next
    case Continue
    have "\<exists>c s''. for_each body xs s' = Inr (c, s'') \<and>
            feed ex (concat (map g xs)) (\<alpha> s') = (c, \<alpha> s'') \<and> I s''"
      by (rule Cons.IH [OF _ i]) (rule Cons.prems(1), auto)
    with Continue b f show ?thesis by (auto simp: feed_append)
  qed
qed

lemma write_row_offset:
  "write_row ex line (st\<lparr>offset := x\<rparr>) = (write_row ex line st)\<lparr>offset := x\<rparr>"
  by (simp add: write_row_def Append_def Let_def)

lemma write_rows_offset:
  "write_rows ex ls (st\<lparr>offset := x\<rparr>) = (write_rows ex ls st)\<lparr>offset := x\<rparr>"
  by (induction ls arbitrary: st) (simp_all add: write_rows_def write_row_offset)

lemma row_count_write_row [simp]: "row_count (write_row ex line st) = row_count st + 1"
  by (simp add: write_row_def Append_def Let_def)

lemma offset_write_row [simp]: "offset (write_row ex line st) = offset st"
  by (simp add: write_row_def Append_def Let_def)

lemma feed_closed_form:
  "limit' ex = 0 \<or> row_count st < limit' ex \<Longrightarrow>
   snd (feed ex V st) =
     write_rows ex
       (if limit' ex = 0 then drop (offset st) V
        else take (limit' ex - row_count st) (drop (offset st) V))
       (st\<lparr>offset := offset st - length V\<rparr>)"
proof (induction V arbitrary: st)
  case Nil
  then show ?case by (simp add: write_rows_def)
next
  case (Cons l V)
  show ?case
  proof (cases "offset st > 0")
    case True
    then obtain m where m: "offset st = Suc m" by (cases "offset st") auto
    from Cons.prems have "limit' ex = 0 \<or> row_count (st\<lparr>offset := offset st - 1\<rparr>) < limit' ex" by simp
    from Cons.IH [OF this] True m show ?thesis by simp
  next
    case False
    then have o0: "offset st = 0" by simp
    show ?thesis
    proof (cases "limit' ex \<noteq> 0 \<and> row_count st + 1 = limit' ex")
      case True
      then have one: "limit' ex - row_count st = Suc 0" by linarith
      have same: "st\<lparr>offset := 0\<rparr> = st" using o0 by (metis SinkState.select_convs(1) SinkState.surjective SinkState.update_convs(1))
      from True o0 show ?thesis by (simp add: write_rows_def Let_def one same)
    next
      case nostop: False
      with Cons.prems have "limit' ex = 0 \<or> row_count (write_row ex l st) < limit' ex" by auto
      from Cons.IH [OF this] nostop o0 Cons.prems show ?thesis
        by (auto simp add: Let_def write_rows_def take_Cons' write_row_offset)
    qed
  qed
qed


lemma chunk_small: "k = 0 \<or> length xs \<le> k \<Longrightarrow> chunk k xs = [xs]"
  by (simp add: chunk.simps [of k xs])

lemma chunk_large:
  "0 < k \<Longrightarrow> k < length xs \<Longrightarrow> chunk k xs = take k xs # chunk k (drop k xs)"
  by (simp add: chunk.simps [of k xs])

lemma chunk_not_Nil [simp]: "chunk k xs \<noteq> []"
  by (simp add: chunk.simps [of k xs])

lemma concat_chunk [simp]: "concat (chunk k xs) = xs"
proof (induction k xs rule: chunk.induct)
  case (1 k xs)
  show ?case
  proof (cases "k = 0 \<or> length xs \<le> k")
    case True
    then show ?thesis by (simp add: chunk_small)
  next
    case False
    with 1 show ?thesis by (simp add: chunk_large)
  qed
qed

lemma chunk_snoc:
  "chunk k (xs @ [x]) =
     (if k \<noteq> 0 \<and> xs \<noteq> [] \<and> length xs mod k = 0 then chunk k xs @ [[x]]
      else butlast (chunk k xs) @ [last (chunk k xs) @ [x]])"
proof (induction k xs rule: chunk.induct)
  case (1 k xs)
  show ?case
  proof (cases "k = 0 \<or> length xs \<le> k")
    case small: True
    show ?thesis
    proof (cases "k \<noteq> 0 \<and> length xs = k")
      case True
      then have "chunk k (xs @ [x]) = take k (xs @ [x]) # chunk k (drop k (xs @ [x]))"
        by (intro chunk_large) auto
      with True show ?thesis by (auto simp: chunk_small)
    next
      case False
      with small have "k = 0 \<or> length (xs @ [x]) \<le> k" by auto
      then have "chunk k (xs @ [x]) = [xs @ [x]]" by (rule chunk_small)
      moreover have "\<not> (k \<noteq> 0 \<and> xs \<noteq> [] \<and> length xs mod k = 0)"
      proof (cases "k = 0")
        case True
        then show ?thesis by simp
      next
        case nz: False
        with small False have "length xs < k" by auto
        then have "length xs mod k = length xs" by simp
        then show ?thesis by auto
      qed
      ultimately show ?thesis using small by (simp add: chunk_small)
    qed
  next
    case large: False
    then have k: "0 < k" "k < length xs" by auto
    then have a: "chunk k (xs @ [x]) = take k xs # chunk k (drop k xs @ [x])"
      by (simp add: chunk_large)
    have m: "length (drop k xs) mod k = length xs mod k"
      using k by (simp add: le_mod_geq)
    have ne: "drop k xs \<noteq> []" "xs \<noteq> []" using k by auto
    from "1.IH" [OF large] a m ne k show ?thesis
      by (simp add: chunk_large [of k xs])
  qed
qed

lemma assemble_snoc:
  "assemble path hdr (cs @ [c]) =
     assemble path hdr cs @
       [(nth_file_path path (length cs), (if length cs = 0 then hdr else []) @ concat c)]"
  by (simp add: assemble_def enumerate_append_eq)

lemma length_assemble [simp]: "length (assemble path hdr cs) = length cs"
  by (simp add: assemble_def)

lemma assemble_extend_last:
  "cs \<noteq> [] \<Longrightarrow>
   assemble path hdr (butlast cs @ [last cs @ [x]]) =
     butlast (assemble path hdr cs) @
       [(fst (last (assemble path hdr cs)), snd (last (assemble path hdr cs)) @ x)]"
proof (induction cs rule: rev_induct)
  case Nil
  then show ?case by simp
next
  case (snoc c cs)
  show ?case by (simp add: assemble_snoc)
qed

lemma write_row_same:
  "\<not> (row_count st > 0 \<and> row_limit' ex \<noteq> 0 \<and> row_count st mod row_limit' ex = 0) \<Longrightarrow>
   write_row ex line st = (Append line st)\<lparr>row_count := row_count st + 1\<rparr>"
  by (auto simp: write_row_def Let_def)

lemma write_row_rotate:
  "row_count st > 0 \<and> row_limit' ex \<noteq> 0 \<and> row_count st mod row_limit' ex = 0 \<Longrightarrow>
   write_row ex line st =
     st\<lparr>file_no' := file_no' st + 1,
        closed_files := closed_files st @ [file_handle st],
        file_handle := (part_file_path (file_path' ex) (file_no' st + 1), line),
        row_count := row_count st + 1\<rparr>"
  by (auto simp: write_row_def Let_def Append_def)

lemma write_rows_snoc: "write_rows ex (E @ [x]) st = write_row ex x (write_rows ex E st)"
  by (simp add: write_rows_def)

lemma write_rows_files:
  assumes "row_count st = 0" "file_no' st = 0" "closed_files st = []"
      and "file_handle st = (file_path' ex, hdr)"
  shows "row_count (write_rows ex E st) = length E \<and>
         Suc (file_no' (write_rows ex E st)) = length (chunk (row_limit' ex) E) \<and>
         files_written (write_rows ex E st) =
           assemble (file_path' ex) hdr (chunk (row_limit' ex) E)"
proof (induction E rule: rev_induct)
  case Nil
  from assms show ?case
    by (simp add: write_rows_def chunk_small files_written_def assemble_def nth_file_path_def)
next
  case (snoc x E)
  let ?st = "write_rows ex E st"
  let ?cs = "chunk (row_limit' ex) E"
  from snoc have rc: "row_count ?st = length E"
    and fn: "Suc (file_no' ?st) = length ?cs"
    and fw: "closed_files ?st @ [file_handle ?st] = assemble (file_path' ex) hdr ?cs"
    by (simp_all add: files_written_def)
  from fw have bl: "butlast (assemble (file_path' ex) hdr ?cs) = closed_files ?st"
    and la: "last (assemble (file_path' ex) hdr ?cs) = file_handle ?st"
    by (metis butlast_snoc, metis last_snoc)
  show ?case
  proof (cases "row_limit' ex \<noteq> 0 \<and> E \<noteq> [] \<and> length E mod row_limit' ex = 0")
    case True
    then have "chunk (row_limit' ex) (E @ [x]) = ?cs @ [[x]]" by (simp add: chunk_snoc)
    moreover from fn have "length ?cs \<noteq> 0" by simp
    ultimately show ?thesis using True rc fn fw
      by (simp add: write_rows_snoc write_row_def Let_def Append_def files_written_def
            assemble_snoc nth_file_path_def)
  next
    case False
    then have c: "chunk (row_limit' ex) (E @ [x]) = butlast ?cs @ [last ?cs @ [x]]"
      by (subst chunk_snoc) auto
    from False rc have nr: "\<not> (row_count ?st > 0 \<and> row_limit' ex \<noteq> 0
                               \<and> row_count ?st mod row_limit' ex = 0)" by auto
    have len: "length (chunk (row_limit' ex) (E @ [x])) = length ?cs" unfolding c by simp
    have w: "write_rows ex (E @ [x]) st = (Append x ?st)\<lparr>row_count := row_count ?st + 1\<rparr>"
      unfolding write_rows_snoc by (rule write_row_same [OF nr])
    have "row_count (write_rows ex (E @ [x]) st) = length (E @ [x])"
      unfolding w using rc by simp
    moreover have "Suc (file_no' (write_rows ex (E @ [x]) st))
                     = length (chunk (row_limit' ex) (E @ [x]))"
      unfolding w len using fn by (simp add: Append_def)
    moreover have "files_written (write_rows ex (E @ [x]) st)
                     = assemble (file_path' ex) hdr (chunk (row_limit' ex) (E @ [x]))"
      unfolding w c by (simp add: assemble_extend_last bl la files_written_def Append_def)
    ultimately show ?thesis by blast
  qed
qed

lemma export_row_feed:
  assumes "\<forall>p. Open_ok env p" and "record_of i = Inr line"
  shows "\<exists>c s'. export_row env ex vf so record_of i s = Inr (c, s') \<and>
                 feed ex (if vf (so + i) then [line] else []) s = (c, s')"
  using assms
  by (auto simp: export_row_def open_next_part_def write_row_def Let_def)

lemma concat_map_visible:
  "concat (map (\<lambda>i. if P i then [f i] else []) xs) = map f (filter P xs)"
  by (induction xs) auto

lemma export_block_feed:
  assumes "\<forall>p. Open_ok env p" and "fetch segment_id b = Inr cvs"
      and "\<forall>i < block_row_count b. record_of cvs i = Inr (render (segment_id, b, i))"
  shows "\<exists>c s'. export_block env ex fetch record_of segment_id seg b s = Inr (c, s') \<and>
                 feed ex (map render (block_visible_rows segment_id seg b)) s = (c, s')"
proof -
  let ?g = "\<lambda>i. if visible seg (segment_offset b + i) then [render (segment_id, b, i)] else []"
  have "\<exists>c s'. for_each (export_row env ex (visible seg) (segment_offset b) (record_of cvs))
                  [0..<block_row_count b] s = Inr (c, s') \<and>
                feed ex (concat (map ?g [0..<block_row_count b])) ((\<lambda>s. s) s) = (c, (\<lambda>s. s) s') \<and>
                (\<lambda>s. True) s'"
  proof (rule for_each_feed)
    fix x s
    assume "x \<in> set [0..<block_row_count b]"
    with assms(3) have "record_of cvs x = Inr (render (segment_id, b, x))" by simp
    from export_row_feed [where record_of = "record_of cvs" and i = x and env = env,
                          OF assms(1) this]
    show "\<exists>c s'. export_row env ex (visible seg) (segment_offset b) (record_of cvs) x s = Inr (c, s') \<and>
                  feed ex (?g x) s = (c, s') \<and> True" by simp
  qed simp
  then show ?thesis
    by (simp add: export_block_def assms(2) concat_map_visible block_visible_rows_def comp_def)
qed

lemma export_segments_feed:
  assumes "\<forall>p. Open_ok env p" and "rows_renderable fetch record_of render ex"
  shows "\<exists>c s'. export_segments env ex fetch record_of s = Inr (c, s') \<and>
                 feed ex (map render (visible_rows ex)) s = (c, s')"
proof -
  have seg: "\<exists>c s'. for_each (export_block env ex fetch record_of (fst sg) (snd sg))
                       (block_map' (snd sg)) s = Inr (c, s') \<and>
               feed ex (map render (segment_visible_rows sg)) s = (c, s')"
    if "sg \<in> set (segment_block_index' ex)" for sg s
  proof -
    have "\<exists>c s'. for_each (export_block env ex fetch record_of (fst sg) (snd sg))
                    (block_map' (snd sg)) s = Inr (c, s') \<and>
                  feed ex (concat (map (\<lambda>b. map render (block_visible_rows (fst sg) (snd sg) b))
                                       (block_map' (snd sg)))) ((\<lambda>s. s) s) = (c, (\<lambda>s. s) s') \<and>
                  (\<lambda>s. True) s'"
    proof (rule for_each_feed)
      fix b s
      assume "b \<in> set (block_map' (snd sg))"
      with that assms(2) obtain cvs where "fetch (fst sg) b = Inr cvs"
        and "\<forall>i < block_row_count b. record_of cvs i = Inr (render (fst sg, b, i))"
        unfolding rows_renderable_def by blast
      from export_block_feed [where fetch = fetch and record_of = record_of and render = render
                                and env = env and segment_id = "fst sg" and b = b and cvs = cvs,
                              OF assms(1) this]
      show "\<exists>c s'. export_block env ex fetch record_of (fst sg) (snd sg) b s = Inr (c, s') \<and>
                    feed ex (map render (block_visible_rows (fst sg) (snd sg) b)) s = (c, s') \<and> True"
        by simp
    qed simp
    then show ?thesis by (simp add: segment_visible_rows_def map_concat comp_def)
  qed
  have "\<exists>c s'. for_each (\<lambda>(segment_id, segment_snapshot).
                   for_each (export_block env ex fetch record_of segment_id segment_snapshot)
                            (block_map' segment_snapshot))
                  (segment_block_index' ex) s = Inr (c, s') \<and>
                feed ex (concat (map (\<lambda>sg. map render (segment_visible_rows sg))
                                     (segment_block_index' ex))) ((\<lambda>s. s) s) = (c, (\<lambda>s. s) s') \<and>
                (\<lambda>s. True) s'"
  proof (rule for_each_feed)
    fix sg s
    assume "sg \<in> set (segment_block_index' ex)"
    from seg [OF this, of s]
    show "\<exists>c s'. (case sg of (segment_id, segment_snapshot) \<Rightarrow>
                     for_each (export_block env ex fetch record_of segment_id segment_snapshot)
                              (block_map' segment_snapshot)) s = Inr (c, s') \<and>
                  feed ex (map render (segment_visible_rows sg)) s = (c, s') \<and> True"
      by (simp add: case_prod_beta)
  qed simp
  then show ?thesis by (simp add: export_segments_def visible_rows_def map_concat comp_def)
qed

lemma selected_rows_map:
  "map render (selected_rows ex) =
     (if limit' ex = 0 then drop (offset' ex) (map render (visible_rows ex))
      else take (limit' ex) (drop (offset' ex) (map render (visible_rows ex))))"
  by (simp add: selected_rows_def take_limit_def take_map drop_map)

lemma feed_files:
  assumes "offset st = offset' ex" "row_count st = 0" "file_no' st = 0" "closed_files st = []"
      and "file_handle st = (file_path' ex, hdr)"
      and "feed ex (map render (visible_rows ex)) st = (c, s')"
  shows "row_count s' = length (selected_rows ex) \<and>
         files_written s' = expected_files ex hdr render"
proof -
  let ?st0 = "st\<lparr>offset := offset st - length (map render (visible_rows ex))\<rparr>"
  have "limit' ex = 0 \<or> row_count st < limit' ex" using assms(2) by auto
  from feed_closed_form [OF this, of "map render (visible_rows ex)"] assms(6)
  have s': "s' = write_rows ex (map render (selected_rows ex)) ?st0"
    by (simp add: selected_rows_map assms(1,2))
  have "row_count ?st0 = 0" "file_no' ?st0 = 0" "closed_files ?st0 = []"
       "file_handle ?st0 = (file_path' ex, hdr)" using assms by simp_all
  from write_rows_files [OF this, of "map render (selected_rows ex)"]
  show ?thesis by (simp add: s' expected_files_def)
qed

lemma sink_result_closed:
  assumes "\<forall>p. Open_ok env p" and "rows_renderable fetch record_of render ex"
      and "offset st = offset' ex" "row_count st = 0" "file_no' st = 0" "closed_files st = []"
      and "file_handle st = (file_path' ex, hdr)"
  shows "sink_result (export_segments env ex fetch record_of st) =
           Inr (length (selected_rows ex), expected_files ex hdr render)"
proof -
  from export_segments_feed [OF assms(1,2), of st]
  obtain c s' where r: "export_segments env ex fetch record_of st = Inr (c, s')"
    and f: "feed ex (map render (visible_rows ex)) st = (c, s')" by blast
  from feed_files [OF assms(3-7) f] show ?thesis by (simp add: r sink_result_def)
qed

subsection \<open>The row-wise sinks\<close>

lemma materialize_columns_ok:
  "\<forall>c \<in> set cs. length (column_vector_of env segment_id b c) = block_row_count b \<Longrightarrow>
   materialize_columns env segment_id b cs = Inr (map (column_vector_of env segment_id b) cs)"
  by (induction cs) (auto simp: column_vector_of_def split: if_splits)

lemma delimited_Cons: "fs \<noteq> [] \<Longrightarrow> delimited d (f # fs) = f @ [d] @ delimited d fs"
  by (cases fs) simp_all

lemma column_name_lookup:
  "c = COLUMN_IDENTIFIER_ROW_ID env \<or> c = COLUMN_IDENTIFIER_CREATE env \<or>
   c = COLUMN_IDENTIFIER_DELETE env \<or> c < length (column_defs ex) \<Longrightarrow>
   (if c = COLUMN_IDENTIFIER_ROW_ID env then Inr ''_row_id''
    else if c = COLUMN_IDENTIFIER_CREATE env then Inr ''_create_timestamp''
    else if c = COLUMN_IDENTIFIER_DELETE env then Inr ''_delete_timestamp''
    else if c < length (column_defs ex) then Inr (name (column_defs ex ! c))
    else Inl (OutOfBoundsAccess c)) = Inr (column_name env ex c)"
  unfolding column_name_def by (simp split: if_splits, blast)

lemma csv_header_ok:
  assumes "cs \<noteq> []"
      and "\<forall>c \<in> set cs. c = COLUMN_IDENTIFIER_ROW_ID env \<or> c = COLUMN_IDENTIFIER_CREATE env \<or>
                  c = COLUMN_IDENTIFIER_DELETE env \<or> c < length (column_defs ex)"
  shows "csv_header env ex cs = Inr (text_line (delimiter' ex) (map (column_name env ex) cs))"
  using assms
proof (induction cs rule: list_nonempty_induct)
  case (single c)
  then have "c = COLUMN_IDENTIFIER_ROW_ID env \<or> c = COLUMN_IDENTIFIER_CREATE env \<or>
             c = COLUMN_IDENTIFIER_DELETE env \<or> c < length (column_defs ex)" by simp
  note l = column_name_lookup [OF this]
  show ?case unfolding csv_header.simps l by (simp add: text_line_def)
next
  case (cons c cs)
  then have ih: "csv_header env ex cs =
                   Inr (text_line (delimiter' ex) (map (column_name env ex) cs))" by simp
  from cons.prems have "c = COLUMN_IDENTIFIER_ROW_ID env \<or> c = COLUMN_IDENTIFIER_CREATE env \<or>
                  c = COLUMN_IDENTIFIER_DELETE env \<or> c < length (column_defs ex)" by simp
  note l = column_name_lookup [OF this]
  have d: "delimited (delimiter' ex) (column_name env ex c # map (column_name env ex) cs) =
           column_name env ex c @ [delimiter' ex] @
           delimited (delimiter' ex) (map (column_name env ex) cs)"
    using cons.hyps by (simp add: delimited_Cons)
  show ?case unfolding csv_header.simps l ih
    using cons.hyps by (simp add: d text_line_def)
qed

lemma csv_line_ok:
  assumes "cvs \<noteq> []" and "\<forall>cv \<in> set cvs. i < length cv"
  shows "csv_line ex cvs i = Inr (text_line (delimiter' ex) (map (\<lambda>cv. csv_cell (cv ! i)) cvs))"
  using assms
proof (induction cvs rule: list_nonempty_induct)
  case (single cv)
  then show ?case by (simp add: text_line_def GetValue_def)
next
  case (cons cv cvs)
  then have ih: "csv_line ex cvs i =
                   Inr (text_line (delimiter' ex) (map (\<lambda>cv. csv_cell (cv ! i)) cvs))" by simp
  have d: "delimited (delimiter' ex) (csv_cell (cv ! i) # map (\<lambda>cv. csv_cell (cv ! i)) cvs) =
           csv_cell (cv ! i) @ [delimiter' ex] @
           delimited (delimiter' ex) (map (\<lambda>cv. csv_cell (cv ! i)) cvs)"
    using cons.hyps by (simp add: delimited_Cons)
  from cons.prems have "i < length cv" by simp
  then show ?case
    using cons.hyps by (simp add: ih d text_line_def GetValue_def)
qed

lemma jsonl_columns_ok:
  "length cvs = length ids \<Longrightarrow> \<forall>cv \<in> set cvs. i < length cv \<Longrightarrow>
   \<forall>c \<in> set ids. c = COLUMN_IDENTIFIER_ROW_ID env \<or> c = COLUMN_IDENTIFIER_CREATE env \<or>
                   c = COLUMN_IDENTIFIER_DELETE env \<or> c < length (column_defs ex) \<Longrightarrow>
   jsonl_columns js env ex ids cvs i j =
     Inr (foldl (\<lambda>j (c, v). AppendToJson js v (column_name env ex c) j) j
            (zip ids (map (\<lambda>cv. cv ! i) cvs)))"
proof (induction ids arbitrary: cvs j)
  case Nil
  then show ?case by simp
next
  case (Cons c ids)
  then obtain cv cvs' where cvs: "cvs = cv # cvs'" by (cases cvs) auto
  with Cons.prems have "length cvs' = length ids" "\<forall>cv \<in> set cvs'. i < length cv"
    "\<forall>c \<in> set ids. c = COLUMN_IDENTIFIER_ROW_ID env \<or> c = COLUMN_IDENTIFIER_CREATE env \<or>
                   c = COLUMN_IDENTIFIER_DELETE env \<or> c < length (column_defs ex)" by auto
  note ih = Cons.IH [OF this]
  from Cons.prems cvs show ?case
    by (auto simp: ih GetValue_def column_name_def)
qed

lemma csv_rows_renderable:
  assumes "columns_named env ex" "blocks_consistent env ex"
  shows "rows_renderable
           (\<lambda>segment_id block_entry.
              materialize_columns env segment_id block_entry (select_columns_of ex))
           (csv_line ex) (csv_row_text env ex) ex"
  unfolding rows_renderable_def
proof (intro ballI)
  fix s b
  assume s: "s \<in> set (segment_block_index' ex)" and b: "b \<in> set (block_map' (snd s))"
  let ?cvs = "map (column_vector_of env (fst s) b) (select_columns_of ex)"
  from assms(2) s b
  have len: "\<forall>c \<in> set (select_columns_of ex).
               length (column_vector_of env (fst s) b c) = block_row_count b"
    unfolding blocks_consistent_def by blast
  then have m: "materialize_columns env (fst s) b (select_columns_of ex) = Inr ?cvs"
    by (rule materialize_columns_ok)
  have "csv_line ex ?cvs i = Inr (csv_row_text env ex (fst s, b, i))"
    if "i < block_row_count b" for i
  proof -
    from len that have "\<forall>cv \<in> set ?cvs. i < length cv" by auto
    moreover from assms(1) have "?cvs \<noteq> []" by (simp add: columns_named_def)
    ultimately show ?thesis
      by (simp add: csv_line_ok csv_row_text_def row_values_def comp_def)
  qed
  with m show "\<exists>cvs. materialize_columns env (fst s) b (select_columns_of ex) = Inr cvs \<and>
                 (\<forall>i<block_row_count b. csv_line ex cvs i = Inr (csv_row_text env ex (fst s, b, i)))"
    by blast
qed

lemma jsonl_rows_renderable:
  assumes "columns_named env ex" "blocks_consistent env ex"
  shows "rows_renderable
           (\<lambda>segment_id block_entry.
              materialize_columns env segment_id block_entry (select_columns_of ex))
           (jsonl_line js env ex) (jsonl_row_text js env ex) ex"
  unfolding rows_renderable_def
proof (intro ballI)
  fix s b
  assume s: "s \<in> set (segment_block_index' ex)" and b: "b \<in> set (block_map' (snd s))"
  let ?cvs = "map (column_vector_of env (fst s) b) (select_columns_of ex)"
  from assms(2) s b
  have len: "\<forall>c \<in> set (select_columns_of ex).
               length (column_vector_of env (fst s) b c) = block_row_count b"
    unfolding blocks_consistent_def by blast
  then have m: "materialize_columns env (fst s) b (select_columns_of ex) = Inr ?cvs"
    by (rule materialize_columns_ok)
  have "jsonl_line js env ex ?cvs i = Inr (jsonl_row_text js env ex (fst s, b, i))"
    if "i < block_row_count b" for i
  proof -
    from len that have "\<forall>cv \<in> set ?cvs. i < length cv" by auto
    moreover have "length ?cvs = length (select_columns_of ex)" by simp
    moreover from assms(1)
    have "\<forall>c \<in> set (select_columns_of ex).
            c = COLUMN_IDENTIFIER_ROW_ID env \<or> c = COLUMN_IDENTIFIER_CREATE env \<or>
            c = COLUMN_IDENTIFIER_DELETE env \<or> c < length (column_defs ex)"
      by (simp add: columns_named_def)
    ultimately show ?thesis
      by (simp add: jsonl_columns_ok jsonl_line_def jsonl_row_text_def row_values_def comp_def)
  qed
  with m show "\<exists>cvs. materialize_columns env (fst s) b (select_columns_of ex) = Inr cvs \<and>
                 (\<forall>i<block_row_count b.
                    jsonl_line js env ex cvs i = Inr (jsonl_row_text js env ex (fst s, b, i)))"
    by blast
qed

lemma fvecs_rows_renderable:
  assumes "fvecs_request ex c d"
  shows "rows_renderable (fvecs_fetch c) (fvecs_record d) (fvecs_row_bytes d c) ex"
  using assms
  by (auto simp: rows_renderable_def fvecs_request_def fvecs_fetch_def fvecs_record_def
        fvecs_row_bytes_def GetValue_def)

lemma open_primary_ok:
  "store_ok env \<Longrightarrow>
   open_primary env ex =
     Inr \<lparr>offset = offset' ex, row_count = 0, file_no' = 0, closed_files = [],
          file_handle = (file_path' ex, [])\<rparr>"
  by (simp add: open_primary_def make_parent_directory_def store_ok_def)

lemma ExportToCSV_closed:
  assumes "store_ok env" "columns_named env ex" "blocks_consistent env ex"
  shows "ExportToCSV env ex =
           Inr (length (selected_rows ex),
                expected_files ex (csv_header_text env ex) (csv_row_text env ex))"
proof -
  from assms(1) have op: "\<forall>p. Open_ok env p" by (simp add: store_ok_def)
  let ?fetch = "\<lambda>segment_id block_entry.
                  materialize_columns env segment_id block_entry (select_columns_of ex)"
  let ?st = "\<lambda>hdr. \<lparr>offset = offset' ex, row_count = 0, file_no' = 0, closed_files = [],
                    file_handle = (file_path' ex, hdr)\<rparr>"
  have run: "sink_result (export_segments env ex ?fetch (csv_line ex) (?st hdr)) =
        Inr (length (selected_rows ex), expected_files ex hdr (csv_row_text env ex))" for hdr
    by (rule sink_result_closed [OF op csv_rows_renderable [OF assms(2,3)]]) simp_all
  show ?thesis
  proof (cases "header' ex")
    case True
    from assms(2) have h: "csv_header env ex (select_columns_of ex) =
        Inr (csv_header_text env ex)"
      unfolding csv_header_text_def using True
      by (simp add: csv_header_ok [where env = env] columns_named_def)
    have "Append (csv_header_text env ex) (?st []) = ?st (csv_header_text env ex)"
      by (simp add: Append_def)
    with True h run [of "csv_header_text env ex"] show ?thesis
      by (simp add: ExportToCSV_def open_primary_ok [OF assms(1)] Let_def)
  next
    case False
    then have "csv_header_text env ex = []" by (simp add: csv_header_text_def)
    with False run [of "[]"] show ?thesis
      by (simp add: ExportToCSV_def open_primary_ok [OF assms(1)] Let_def)
  qed
qed

lemma ExportToJSONL_closed:
  assumes "store_ok env" "columns_named env ex" "blocks_consistent env ex"
  shows "ExportToJSONL js env ex =
           Inr (length (selected_rows ex), expected_files ex [] (jsonl_row_text js env ex))"
proof -
  from assms(1) have op: "\<forall>p. Open_ok env p" by (simp add: store_ok_def)
  let ?st = "\<lparr>offset = offset' ex, row_count = 0, file_no' = 0, closed_files = [],
              file_handle = (file_path' ex, [])\<rparr>"
  have "sink_result (export_segments env ex
           (\<lambda>segment_id block_entry.
              materialize_columns env segment_id block_entry (select_columns_of ex))
           (jsonl_line js env ex) ?st) =
        Inr (length (selected_rows ex), expected_files ex [] (jsonl_row_text js env ex))"
    by (rule sink_result_closed [OF op jsonl_rows_renderable [OF assms(2,3)]]) simp_all
  then show ?thesis
    by (simp add: ExportToJSONL_def open_primary_ok [OF assms(1)])
qed

lemma fvecs_checks_ok: "fvecs_request ex c d \<Longrightarrow> fvecs_checks ex = Inr (c, d)"
  by (simp add: fvecs_request_def fvecs_checks_def)

lemma ExportToFVECS_closed:
  assumes "store_ok env" "fvecs_request ex c d"
  shows "ExportToFVECS env ex =
           Inr (length (selected_rows ex), expected_files ex [] (fvecs_row_bytes d c))"
proof -
  from assms(1) have op: "\<forall>p. Open_ok env p" by (simp add: store_ok_def)
  let ?st = "\<lparr>offset = offset' ex, row_count = 0, file_no' = 0, closed_files = [],
              file_handle = (file_path' ex, [])\<rparr>"
  have "sink_result (export_segments env ex (fvecs_fetch c) (fvecs_record d) ?st) =
        Inr (length (selected_rows ex), expected_files ex [] (fvecs_row_bytes d c))"
    by (rule sink_result_closed [OF op fvecs_rows_renderable [OF assms(2)]]) simp_all
  then show ?thesis
    by (simp add: ExportToFVECS_def open_primary_ok [OF assms(1)] fvecs_checks_ok [OF assms(2)])
qed

subsection \<open>The Parquet sink\<close>

lemma pending_view_Nil: "pending_view ex st [] (offset st) (row_count st) = rows_view st"
  by (simp add: pending_view_def rows_view_def parquet_file_rows_def)

lemma pending_view_sel [simp]:
  "offset (pending_view ex st P off rc) = off"
  "row_count (pending_view ex st P off rc) = rc"
  by (simp_all add: pending_view_def)

lemma pending_view_offset:
  "(pending_view ex st P off rc)\<lparr>offset := x\<rparr> = pending_view ex st P x rc"
  by (simp add: pending_view_def)

lemma pending_view_push:
  assumes "P = [] \<Longrightarrow> switch_to_new_file st \<longleftrightarrow>
             (rc > 0 \<and> row_limit' ex \<noteq> 0 \<and> rc mod row_limit' ex = 0)"
      and "P \<noteq> [] \<Longrightarrow> \<not> (row_limit' ex \<noteq> 0 \<and> rc mod row_limit' ex = 0)"
  shows "write_row ex [r] (pending_view ex st P off rc) = pending_view ex st (P @ [r]) off (rc + 1)"
proof (cases "P = []")
  case True
  show ?thesis
  proof (cases "switch_to_new_file st")
    case sw: True
    with assms(1) True have c: "rc > 0 \<and> row_limit' ex \<noteq> 0 \<and> rc mod row_limit' ex = 0" by simp
    have "row_count (pending_view ex st P off rc) > 0 \<and> row_limit' ex \<noteq> 0
            \<and> row_count (pending_view ex st P off rc) mod row_limit' ex = 0"
      using c by simp
    from write_row_rotate [OF this] True sw show ?thesis
      by (simp add: pending_view_def parquet_file_rows_def)
  next
    case sw: False
    with assms(1) True have c: "\<not> (rc > 0 \<and> row_limit' ex \<noteq> 0 \<and> rc mod row_limit' ex = 0)" by simp
    have "\<not> (row_count (pending_view ex st P off rc) > 0 \<and> row_limit' ex \<noteq> 0
            \<and> row_count (pending_view ex st P off rc) mod row_limit' ex = 0)"
      using c by simp
    from write_row_same [OF this] True sw show ?thesis
      by (simp add: pending_view_def parquet_file_rows_def Append_def)
  qed
next
  case False
  with assms(2) have "\<not> (row_count (pending_view ex st P off rc) > 0 \<and> row_limit' ex \<noteq> 0
            \<and> row_count (pending_view ex st P off rc) mod row_limit' ex = 0)"
    by simp
  from write_row_same [OF this] False show ?thesis
    by (simp add: pending_view_def parquet_file_rows_def Append_def)
qed

lemma collect_rows_full:
  "i < n \<Longrightarrow> vf (so + i) \<Longrightarrow> row_limit' ex \<noteq> 0 \<and> Suc rc mod row_limit' ex = 0 \<Longrightarrow>
   collect_rows ex vf so n i rows 0 rc = (i, rows @ [i], True, 0, Suc rc)"
  by (simp add: collect_rows_push)

lemma collect_rows_limit:
  "i < n \<Longrightarrow> vf (so + i) \<Longrightarrow> \<not> (row_limit' ex \<noteq> 0 \<and> Suc rc mod row_limit' ex = 0) \<Longrightarrow>
   Suc rc = limit' ex \<Longrightarrow>
   collect_rows ex vf so n i rows 0 rc = (i, rows @ [i], False, 0, Suc rc)"
  by (auto simp add: collect_rows_push)

lemma collect_rows_more:
  "i < n \<Longrightarrow> vf (so + i) \<Longrightarrow> \<not> (row_limit' ex \<noteq> 0 \<and> Suc rc mod row_limit' ex = 0) \<Longrightarrow>
   Suc rc \<noteq> limit' ex \<Longrightarrow>
   collect_rows ex vf so n i rows 0 rc = collect_rows ex vf so n (Suc i) (rows @ [i]) 0 (Suc rc)"
  by (auto simp add: collect_rows_push)

lemma collect_rows_feed:
  assumes "collect_rows ex vf so n i rows off rc = (i', rows', need, off', rc')"
      and "rows = [] \<Longrightarrow> switch_to_new_file st \<longleftrightarrow>
             (rc > 0 \<and> row_limit' ex \<noteq> 0 \<and> rc mod row_limit' ex = 0)"
      and "rows \<noteq> [] \<Longrightarrow>
             \<not> (row_limit' ex \<noteq> 0 \<and> rc mod row_limit' ex = 0) \<and> rc \<noteq> limit' ex \<and> rc > 0"
  shows "feed ex (map (\<lambda>i. [rv i]) (filter (\<lambda>i. vf (so + i)) [i..<(if i' < n then Suc i' else n)]))
              (pending_view ex st (map rv rows) off rc)
           = (if i' < n \<and> rc' = limit' ex then LabelReturn else Continue,
              pending_view ex st (map rv rows') off' rc')
         \<and> (rows' = [] \<longrightarrow> rows = [] \<and> rc' = rc \<and> \<not> i' < n)
         \<and> (rows' \<noteq> [] \<longrightarrow>
              (need \<longleftrightarrow> (row_limit' ex \<noteq> 0 \<and> rc' mod row_limit' ex = 0)) \<and> rc' > 0 \<and>
              (\<not> i' < n \<longrightarrow> rc' \<noteq> limit' ex))
         \<and> set rows' \<subseteq> set rows \<union> {i..<n}"
  using assms
proof (induction ex vf so n i rows off rc rule: collect_rows.induct)
  case (1 ex vf so n i rows off rc)
  note eq = "1.prems"(1) and sw = "1.prems"(2) and pend = "1.prems"(3)
  show ?case
  proof (cases "i < n")
    case False
    with eq have r: "i' = i" "rows' = rows" "need = False" "off' = off" "rc' = rc"
      by (simp_all add: collect_rows_end)
    from False pend show ?thesis unfolding r by auto
  next
    case lt: True
    from collect_rows_index [OF eq] have ge: "i \<le> i'" .
    let ?j = "if i' < n then Suc i' else n"
    from lt ge have upt: "[i..<?j] = i # [Suc i..<?j]" by (auto simp: upt_conv_Cons)
    show ?thesis
    proof (cases "vf (so + i)")
      case False
      with lt eq have e: "collect_rows ex vf so n (i + 1) rows off rc = (i', rows', need, off', rc')"
        by (simp add: collect_rows_invisible)
      from "1.IH"(1) [OF lt False e sw pend] False
      show ?thesis unfolding upt by auto
    next
      case vis: True
      show ?thesis
      proof (cases "off > 0")
        case True
        with lt vis eq
        have e: "collect_rows ex vf so n (i + 1) rows (off - 1) rc = (i', rows', need, off', rc')"
          by (simp add: collect_rows_skip)
        have nv: "\<not> \<not> vf (so + i)" using vis by simp
        from "1.IH"(2) [OF lt nv True e sw pend] vis True
        show ?thesis unfolding upt by (auto simp: pending_view_offset)
      next
        case False
        then have off0: "off = 0" by simp
        have push: "write_row ex [rv i] (pending_view ex st (map rv rows) 0 rc)
                      = pending_view ex st (map rv (rows @ [i])) 0 (rc + 1)"
          using pending_view_push [of "map rv rows" st rc ex "rv i" 0] sw pend by auto
        show ?thesis
        proof (cases "row_limit' ex \<noteq> 0 \<and> Suc rc mod row_limit' ex = 0")
          case True
          from eq collect_rows_full [where vf = vf and so = so and rows = rows, OF lt vis True]
          have r: "i' = i" "rows' = rows @ [i]" "need = True" "off' = 0" "rc' = Suc rc"
            unfolding off0 by auto
          from lt vis True show ?thesis unfolding r off0
            by (simp add: push Let_def)
        next
          case kf: False
          show ?thesis
          proof (cases "Suc rc = limit' ex")
            case True
            from eq collect_rows_limit [where vf = vf and so = so and rows = rows, OF lt vis kf True]
            have r: "i' = i" "rows' = rows @ [i]" "need = False" "off' = 0" "rc' = Suc rc"
              unfolding off0 by auto
            from lt vis True kf show ?thesis unfolding r off0
              by (auto simp add: push Let_def)
          next
            case lf: False
            from eq collect_rows_more [where vf = vf and so = so and rows = rows, OF lt vis kf lf]
            have e: "collect_rows ex vf so n (i + 1) (rows @ [i]) off (rc + 1)
                       = (i', rows', need, off', rc')"
              unfolding off0 by simp
            have nv: "\<not> \<not> vf (so + i)" using vis by simp
            have a: "rows @ [i] = [] \<Longrightarrow> switch_to_new_file st \<longleftrightarrow>
                       (rc + 1 > 0 \<and> row_limit' ex \<noteq> 0 \<and> (rc + 1) mod row_limit' ex = 0)" by simp
            have b: "rows @ [i] \<noteq> [] \<Longrightarrow>
                       \<not> (row_limit' ex \<noteq> 0 \<and> (rc + 1) mod row_limit' ex = 0) \<and>
                       rc + 1 \<noteq> limit' ex \<and> rc + 1 > 0"
              using kf lf by simp
            from "1.IH"(3) [OF lt nv False _ _ e a b] kf lf
            have ih: "feed ex (map (\<lambda>i. [rv i]) (filter (\<lambda>i. vf (so + i)) [i + 1..<?j]))
                        (pending_view ex st (map rv (rows @ [i])) off (rc + 1))
                      = (if i' < n \<and> rc' = limit' ex then LabelReturn else Continue,
                         pending_view ex st (map rv rows') off' rc')
                  \<and> (rows' = [] \<longrightarrow> rows @ [i] = [] \<and> rc' = rc + 1 \<and> \<not> i' < n)
                  \<and> (rows' \<noteq> [] \<longrightarrow>
                       (need \<longleftrightarrow> (row_limit' ex \<noteq> 0 \<and> rc' mod row_limit' ex = 0)) \<and> rc' > 0 \<and>
                       (\<not> i' < n \<longrightarrow> rc' \<noteq> limit' ex))
                  \<and> set rows' \<subseteq> set (rows @ [i]) \<union> {i + 1..<n}"
              by auto
            from ih vis lf kf lt show ?thesis unfolding upt off0
              by (auto simp add: push Let_def)
          qed
        qed
      qed
    qed
  qed
qed


lemma get_values_ok:
  "\<forall>r \<in> set rows. r < length cv \<Longrightarrow> get_values cv rows = Inr (map ((!) cv) rows)"
  by (induction rows) (simp_all add: GetValue_def)

lemma build_block_arrays_ok:
  assumes "\<forall>c \<in> set ids. c < length (column_defs ex) \<and>
             (\<exists>b. BuildArrowArray_builder (column_defs ex ! c) = Inr b)"
      and "length cvs = length ids"
      and "\<forall>cv \<in> set cvs. \<forall>r \<in> set rows. r < length cv"
  shows "\<exists>arrs. build_block_arrays ex ids cvs rows = Inr arrs \<and>
                map array_values arrs = map (\<lambda>cv. map ((!) cv) rows) cvs"
  using assms
proof (induction ids arbitrary: cvs)
  case Nil
  then show ?case by simp
next
  case (Cons c ids)
  then obtain cv cvs' where cvs: "cvs = cv # cvs'" by (cases cvs) auto
  from Cons.prems(1) obtain b where c: "c < length (column_defs ex)"
    and b: "BuildArrowArray_builder (column_defs ex ! c) = Inr b" by auto
  from Cons.prems(3) cvs have "\<forall>r \<in> set rows. r < length cv" by simp
  then have g: "get_values cv rows = Inr (map ((!) cv) rows)" by (rule get_values_ok)
  from Cons.prems cvs
  have "\<exists>arrs. build_block_arrays ex ids cvs' rows = Inr arrs \<and>
               map array_values arrs = map (\<lambda>cv. map ((!) cv) rows) cvs'"
    by (intro Cons.IH) auto
  then obtain arrs where "build_block_arrays ex ids cvs' rows = Inr arrs"
    and "map array_values arrs = map (\<lambda>cv. map ((!) cv) rows) cvs'" by blast
  with c b g cvs show ?case by (simp add: BuildArrowArray_def)
qed

lemma batch_rows_built:
  assumes "map array_values arrs = map (\<lambda>cv. map ((!) cv) rows) cvs"
  shows "batch_rows \<lparr>num_rows = length rows, batch_columns = arrs\<rparr>
           = map (\<lambda>r. map (\<lambda>cv. cv ! r) cvs) rows"
proof -
  have "map (\<lambda>a. array_values a ! j) arrs = map (\<lambda>cv. cv ! (rows ! j)) cvs"
    if "j < length rows" for j
  proof -
    have "map (\<lambda>a. array_values a ! j) arrs = map (\<lambda>vs. vs ! j) (map array_values arrs)"
      by (simp add: comp_def)
    also have "\<dots> = map (\<lambda>cv. cv ! (rows ! j)) cvs"
      unfolding assms using that by (simp add: comp_def)
    finally show ?thesis .
  qed
  then have "batch_rows \<lparr>num_rows = length rows, batch_columns = arrs\<rparr>
               = map (\<lambda>j. map (\<lambda>cv. cv ! (rows ! j)) cvs) [0..<length rows]"
    by (simp add: batch_rows_def)
  also have "\<dots> = map (\<lambda>r. map (\<lambda>cv. cv ! r) cvs) (map ((!) rows) [0..<length rows])"
    by (simp add: comp_def)
  also have "\<dots> = map (\<lambda>r. map (\<lambda>cv. cv ! r) cvs) rows"
    by (simp only: map_nth)
  finally show ?thesis .
qed

lemma consume_block_from_end:
  "\<not> i < n \<Longrightarrow> consume_block_from env ex cvs vf so n i st = Inr (Continue, st)"
  by (simp add: consume_block_from.simps [of _ _ _ _ _ n i])

lemma consume_block_from_empty:
  "i < n \<Longrightarrow>
   collect_rows ex vf so n i [] (offset st) (row_count st) = (i', [], need, off', rc') \<Longrightarrow>
   consume_block_from env ex cvs vf so n i st =
     consume_block_from env ex cvs vf so n (i' + 1) (st\<lparr>offset := off', row_count := rc'\<rparr>)"
  by (simp add: consume_block_from.simps [of _ _ _ _ _ n i])

lemma consume_block_from_batch:
  assumes "i < n"
      and "collect_rows ex vf so n i [] (offset st) (row_count st) = (i', rows', need, off', rc')"
      and "rows' \<noteq> []" and "arrow_ok env"
      and "build_block_arrays ex (select_columns_of ex) cvs rows' = Inr arrs"
  shows "consume_block_from env ex cvs vf so n i st =
           (if rc' = limit' ex
            then Inr (LabelReturn,
                      batch_written ex st off' rc' need
                        \<lparr>num_rows = length rows', batch_columns = arrs\<rparr>)
            else consume_block_from env ex cvs vf so n (i' + 1)
                   (batch_written ex st off' rc' need
                      \<lparr>num_rows = length rows', batch_columns = arrs\<rparr>))"
  using assms
  by (simp add: consume_block_from.simps [of _ _ _ _ _ n i] arrow_ok_def switch_file_def
        init_file_stream_writer_def batch_written_def Let_def Append_def)

lemma rows_view_batch_written:
  "batch_rows batch \<noteq> [] \<Longrightarrow>
   rows_view (batch_written ex st off rc need batch) = pending_view ex st (batch_rows batch) off rc"
  by (simp add: rows_view_def batch_written_def pending_view_def Append_def parquet_file_rows_def)

lemma switch_pending_batch_written:
  "switch_pending ex (batch_written ex st off rc need batch) \<longleftrightarrow>
     (need \<longleftrightarrow> rc > 0 \<and> row_limit' ex \<noteq> 0 \<and> rc mod row_limit' ex = 0)"
  by (simp add: switch_pending_def batch_written_def Append_def)

lemma upt_split: "i \<le> j \<Longrightarrow> j \<le> n \<Longrightarrow> [i..<n] = [i..<j] @ [j..<n]"
  using upt_add_eq_append [of i j "n - j"] by simp

lemma consume_block_from_feed:
  assumes ok: "arrow_ok env"
      and cols: "\<forall>c \<in> set (select_columns_of ex). c < length (column_defs ex) \<and>
                   (\<exists>b. BuildArrowArray_builder (column_defs ex ! c) = Inr b)"
      and len: "length cvs = length (select_columns_of ex)" "\<forall>cv \<in> set cvs. length cv = n"
      and inv: "switch_pending ex st"
  shows "\<exists>c st'. consume_block_from env ex cvs vf so n i st = Inr (c, st') \<and>
           feed ex (map (\<lambda>i. [map (\<lambda>cv. cv ! i) cvs]) (filter (\<lambda>i. vf (so + i)) [i..<n]))
             (rows_view st) = (c, rows_view st') \<and>
           switch_pending ex st'"
  using inv
proof (induction "n - i" arbitrary: i st rule: less_induct)
  case less
  let ?rv = "\<lambda>i. map (\<lambda>cv. cv ! i) cvs"
  let ?lines = "\<lambda>a b. map (\<lambda>i. [?rv i]) (filter (\<lambda>i. vf (so + i)) [a..<b])"
  show ?case
  proof (cases "i < n")
    case False
    then show ?thesis using less.prems by (simp add: consume_block_from_end)
  next
    case lt: True
    obtain i' rows' need off' rc'
      where eq: "collect_rows ex vf so n i [] (offset st) (row_count st)
                   = (i', rows', need, off', rc')"
      by (metis prod_cases5)
    from collect_rows_index [OF eq] have ge: "i \<le> i'" .
    let ?j = "if i' < n then Suc i' else n"
    have sw: "[] = [] \<Longrightarrow> switch_to_new_file st \<longleftrightarrow>
               (row_count st > 0 \<and> row_limit' ex \<noteq> 0 \<and> row_count st mod row_limit' ex = 0)"
      using less.prems by (simp add: switch_pending_def)
    have pe: "([]::nat list) \<noteq> [] \<Longrightarrow>
               \<not> (row_limit' ex \<noteq> 0 \<and> row_count st mod row_limit' ex = 0) \<and>
               row_count st \<noteq> limit' ex \<and> row_count st > 0" by simp
    from collect_rows_feed [where rv = ?rv and st = st, OF eq sw pe]
    have F: "feed ex (?lines i ?j) (rows_view st)
               = (if i' < n \<and> rc' = limit' ex then LabelReturn else Continue,
                  pending_view ex st (map ?rv rows') off' rc')"
      and A: "rows' = [] \<longrightarrow> rc' = row_count st \<and> \<not> i' < n"
      and B: "rows' \<noteq> [] \<longrightarrow>
                (need \<longleftrightarrow> (row_limit' ex \<noteq> 0 \<and> rc' mod row_limit' ex = 0)) \<and> rc' > 0 \<and>
                (\<not> i' < n \<longrightarrow> rc' \<noteq> limit' ex)"
      and C: "set rows' \<subseteq> {i..<n}"
      by (simp_all add: pending_view_Nil)
    have sp: "?lines i n = ?lines i ?j @ ?lines (Suc i') n"
    proof (cases "i' < n")
      case True
      with ge have "[i..<n] = [i..<Suc i'] @ [Suc i'..<n]" by (intro upt_split) auto
      with True show ?thesis by simp
    next
      case False
      then show ?thesis by simp
    qed
    show ?thesis
    proof (cases "rows' = []")
      case True
      with A have rc: "rc' = row_count st" and ni: "\<not> i' < n" by auto
      let ?st1 = "st\<lparr>offset := off', row_count := rc'\<rparr>"
      from eq True have "consume_block_from env ex cvs vf so n i st =
                           consume_block_from env ex cvs vf so n (i' + 1) ?st1"
        by (intro consume_block_from_empty [OF lt]) simp
      also have "\<dots> = Inr (Continue, ?st1)" using ni by (simp add: consume_block_from_end)
      finally have r: "consume_block_from env ex cvs vf so n i st = Inr (Continue, ?st1)" .
      have v: "pending_view ex st (map ?rv rows') off' rc' = rows_view ?st1"
        using True by (simp add: pending_view_def rows_view_def parquet_file_rows_def)
      have "switch_pending ex ?st1" using less.prems rc by (simp add: switch_pending_def)
      with r F v ni show ?thesis by simp
    next
      case ne: False
      from C len(2) have "\<forall>cv \<in> set cvs. \<forall>r \<in> set rows'. r < length cv" by auto
      from build_block_arrays_ok [OF cols len(1) this]
      obtain arrs where bu: "build_block_arrays ex (select_columns_of ex) cvs rows' = Inr arrs"
        and av: "map array_values arrs = map (\<lambda>cv. map ((!) cv) rows') cvs" by blast
      let ?batch = "\<lparr>num_rows = length rows', batch_columns = arrs\<rparr>"
      let ?st3 = "batch_written ex st off' rc' need ?batch"
      have br: "batch_rows ?batch = map ?rv rows'" by (rule batch_rows_built [OF av])
      with ne have "batch_rows ?batch \<noteq> []" by simp
      then have v: "rows_view ?st3 = pending_view ex st (map ?rv rows') off' rc'"
        by (simp add: rows_view_batch_written br)
      from B ne have inv3: "switch_pending ex ?st3"
        by (simp add: switch_pending_batch_written)
      note step = consume_block_from_batch [OF lt eq ne ok bu]
      show ?thesis
      proof (cases "rc' = limit' ex")
        case True
        with B ne have "i' < n" by auto
        with True F v have "feed ex (?lines i ?j) (rows_view st) = (LabelReturn, rows_view ?st3)"
          by simp
        then have "feed ex (?lines i n) (rows_view st) = (LabelReturn, rows_view ?st3)"
          unfolding sp by (simp add: feed_append)
        with True step inv3 show ?thesis by simp
      next
        case False
        with F v have f1: "feed ex (?lines i ?j) (rows_view st) = (Continue, rows_view ?st3)"
          by simp
        from lt ge have "n - (i' + 1) < n - i" by simp
        from less.hyps [OF this inv3]
        obtain c st' where r: "consume_block_from env ex cvs vf so n (i' + 1) ?st3 = Inr (c, st')"
          and f2: "feed ex (?lines (i' + 1) n) (rows_view ?st3) = (c, rows_view st')"
          and i3: "switch_pending ex st'" by blast
        from f1 f2 have "feed ex (?lines i n) (rows_view st) = (c, rows_view st')"
          unfolding sp by (simp add: feed_append)
        with False step r i3 show ?thesis by simp
      qed
    qed
  qed
qed

lemma parquet_block_feed:
  assumes ok: "arrow_ok env" and cols: "parquet_columns_ok ex"
      and len: "\<forall>c \<in> set (select_columns_of ex).
                  length (column_vector_of env segment_id b c) = block_row_count b"
      and inv: "switch_pending ex st"
  shows "\<exists>c st'. parquet_block env ex segment_id seg b st = Inr (c, st') \<and>
           feed ex (map (parquet_row env ex) (block_visible_rows segment_id seg b)) (rows_view st)
             = (c, rows_view st') \<and>
           switch_pending ex st'"
proof -
  let ?cvs = "map (column_vector_of env segment_id b) (select_columns_of ex)"
  from len have m: "materialize_columns env segment_id b (select_columns_of ex) = Inr ?cvs"
    by (rule materialize_columns_ok)
  from cols have c: "\<forall>c \<in> set (select_columns_of ex). c < length (column_defs ex) \<and>
                       (\<exists>b. BuildArrowArray_builder (column_defs ex ! c) = Inr b)"
    by (simp add: parquet_columns_ok_def)
  have l1: "length ?cvs = length (select_columns_of ex)" by simp
  from len have l2: "\<forall>cv \<in> set ?cvs. length cv = block_row_count b" by simp
  have rows: "map (\<lambda>i. [map (\<lambda>cv. cv ! i) ?cvs])
                  (filter (\<lambda>i. visible seg (segment_offset b + i)) [0..<block_row_count b])
              = map (parquet_row env ex) (block_visible_rows segment_id seg b)"
    by (simp add: block_visible_rows_def parquet_row_def row_values_def comp_def)
  note consume_block_from_feed [OF ok c l1 l2 inv, of "visible seg" "segment_offset b" 0,
                                unfolded rows]
  then show ?thesis by (simp only: parquet_block_def m consume_block_def sum.case)
qed

lemma parquet_segments_feed:
  assumes ok: "arrow_ok env" and cols: "parquet_columns_ok ex"
      and bc: "blocks_consistent env ex" and inv: "switch_pending ex st"
  shows "\<exists>c st'. parquet_segments env ex st = Inr (c, st') \<and>
           feed ex (map (parquet_row env ex) (visible_rows ex)) (rows_view st)
             = (c, rows_view st') \<and>
           switch_pending ex st'"
proof -
  have seg: "\<exists>c s'. for_each (parquet_block env ex (fst sg) (snd sg)) (block_map' (snd sg)) s
                      = Inr (c, s') \<and>
               feed ex (map (parquet_row env ex) (segment_visible_rows sg)) (rows_view s)
                 = (c, rows_view s') \<and> switch_pending ex s'"
    if "sg \<in> set (segment_block_index' ex)" and "switch_pending ex s" for sg s
  proof -
    have "\<exists>c s'. for_each (parquet_block env ex (fst sg) (snd sg)) (block_map' (snd sg)) s
                    = Inr (c, s') \<and>
                  feed ex (concat (map (\<lambda>b. map (parquet_row env ex)
                                               (block_visible_rows (fst sg) (snd sg) b))
                                       (block_map' (snd sg)))) (rows_view s) = (c, rows_view s') \<and>
                  switch_pending ex s'"
    proof (rule for_each_feed [where I = "switch_pending ex"])
      fix b s
      assume b: "b \<in> set (block_map' (snd sg))" and i: "switch_pending ex s"
      from bc that(1) b
      have "\<forall>c \<in> set (select_columns_of ex).
              length (column_vector_of env (fst sg) b c) = block_row_count b"
        unfolding blocks_consistent_def by blast
      from parquet_block_feed [OF ok cols this i]
      show "\<exists>c s'. parquet_block env ex (fst sg) (snd sg) b s = Inr (c, s') \<and>
                    feed ex (map (parquet_row env ex) (block_visible_rows (fst sg) (snd sg) b))
                      (rows_view s) = (c, rows_view s') \<and> switch_pending ex s'" .
    qed (rule that(2))
    then show ?thesis by (simp add: segment_visible_rows_def map_concat comp_def)
  qed
  have "\<exists>c s'. for_each (\<lambda>(segment_id, segment_snapshot).
                   for_each (parquet_block env ex segment_id segment_snapshot)
                            (block_map' segment_snapshot))
                  (segment_block_index' ex) st = Inr (c, s') \<and>
                feed ex (concat (map (\<lambda>sg. map (parquet_row env ex) (segment_visible_rows sg))
                                     (segment_block_index' ex))) (rows_view st) = (c, rows_view s') \<and>
                switch_pending ex s'"
  proof (rule for_each_feed [where I = "switch_pending ex"])
    fix sg s
    assume "sg \<in> set (segment_block_index' ex)" and "switch_pending ex s"
    from seg [OF this]
    show "\<exists>c s'. (case sg of (segment_id, segment_snapshot) \<Rightarrow>
                     for_each (parquet_block env ex segment_id segment_snapshot)
                              (block_map' segment_snapshot)) s = Inr (c, s') \<and>
                  feed ex (map (parquet_row env ex) (segment_visible_rows sg)) (rows_view s)
                    = (c, rows_view s') \<and> switch_pending ex s'"
      by (simp add: case_prod_beta)
  qed (rule inv)
  then show ?thesis by (simp add: parquet_segments_def visible_rows_def map_concat comp_def)
qed

lemma parquet_fields_ok:
  "\<forall>c \<in> set cs. c < length (column_defs ex) \<and> (\<exists>t. GetArrowType (column_defs ex ! c) = Inr t)
   \<Longrightarrow> \<exists>schema. parquet_fields ex cs = Inr schema"
  by (induction cs) (auto simp: Let_def)

lemma ExportToPARQUET_closed:
  assumes ok: "arrow_ok env" and cols: "parquet_columns_ok ex" and bc: "blocks_consistent env ex"
  shows "\<exists>schema files.
           ExportToPARQUET env ex = Inr (length (selected_rows ex), schema, files) \<and>
           map parquet_file_rows files = expected_files ex [] (parquet_row env ex)"
proof -
  from cols obtain schema where s: "parquet_fields ex (select_columns_of ex) = Inr schema"
    using parquet_fields_ok [of "select_columns_of ex" ex] by (auto simp: parquet_columns_ok_def)
  let ?st = "\<lparr>offset = offset' ex, row_count = 0, file_no' = 0, closed_files = [],
              file_handle = (file_path' ex, []), switch_to_new_file = False\<rparr>"
  have "switch_pending ex ?st" by (simp add: switch_pending_def)
  from parquet_segments_feed [OF ok cols bc this]
  obtain c st' where r: "parquet_segments env ex ?st = Inr (c, st')"
    and f: "feed ex (map (parquet_row env ex) (visible_rows ex)) (rows_view ?st)
              = (c, rows_view st')" by blast
  have "offset (rows_view ?st) = offset' ex" "row_count (rows_view ?st) = 0"
       "file_no' (rows_view ?st) = 0" "closed_files (rows_view ?st) = []"
       "file_handle (rows_view ?st) = (file_path' ex, [])"
    by (simp_all add: rows_view_def parquet_file_rows_def)
  from feed_files [OF this f]
  have "row_count st' = length (selected_rows ex)"
    and "map parquet_file_rows (files_written st') = expected_files ex [] (parquet_row env ex)"
    by (simp_all add: rows_view_def files_written_def)
  with ok s r show ?thesis
    by (simp add: ExportToPARQUET_def make_parent_directory_def init_file_stream_writer_def
          arrow_ok_def)
qed

subsection \<open>Counts and layout of the files\<close>

lemma length_selected_rows: "length (selected_rows ex) = exported_row_count ex"
  by (simp add: selected_rows_def take_limit_def exported_row_count_def Let_def min.commute)

lemma selected_rows_take:
  "selected_rows ex = take (exported_row_count ex) (drop (offset' ex) (visible_rows ex))"
  by (auto simp: selected_rows_def take_limit_def exported_row_count_def Let_def min_def)

lemma ceil_div_step: "0 < k \<Longrightarrow> k < n \<Longrightarrow> (n + k - 1) div k = Suc ((n - k + k - 1) div k)"
proof -
  assume k: "0 < k" "k < n"
  then have "n + k - 1 = (n - k + k - 1) + k" by simp
  then show ?thesis using k by (metis div_add_self2 Suc_eq_plus1 less_numeral_extra(3))
qed

lemma ceil_div_one: "0 < n \<Longrightarrow> n \<le> k \<Longrightarrow> (n + k - 1) div k = (1::nat)"
proof -
  assume a: "0 < n" "n \<le> k"
  then have "k * 1 \<le> n + k - 1" by simp
  moreover from a have "n + k - 1 < k * Suc 1" by simp
  ultimately show ?thesis by (rule div_nat_eqI)
qed

lemma chunk_layout:
  "0 < k \<Longrightarrow>
   chunk k xs = map (\<lambda>j. take k (drop (j * k) xs))
                    [0..<(if xs = [] then 1 else (length xs + k - 1) div k)]"
proof (induction k xs rule: chunk.induct)
  case (1 k xs)
  show ?case
  proof (cases "length xs \<le> k")
    case True
    have "xs \<noteq> [] \<Longrightarrow> (length xs + k - 1) div k = 1"
      using True by (intro ceil_div_one) simp_all
    with True show ?thesis by (auto simp: chunk_small)
  next
    case False
    with "1.prems" have k: "0 < k" "k < length xs" by auto
    then have ne: "xs \<noteq> []" "drop k xs \<noteq> []" by auto
    from k have "\<not> (k = 0 \<or> length xs \<le> k)" by auto
    from "1.IH" [OF this k(1)] ne
    have ih: "chunk k (drop k xs) =
                map (\<lambda>j. take k (drop (j * k) (drop k xs)))
                    [0..<(length xs - k + k - 1) div k]" by simp
    have "map (\<lambda>j. take k (drop (j * k) xs)) [0..<Suc ((length xs - k + k - 1) div k)]
            = take k xs # map (\<lambda>j. take k (drop (Suc j * k) xs))
                              [0..<(length xs - k + k - 1) div k]"
      by (simp only: map_upt_Suc) simp
    also have "\<dots> = take k xs # chunk k (drop k xs)"
      unfolding ih by (simp add: add.commute)
    finally have layout:
      "map (\<lambda>j. take k (drop (j * k) xs)) [0..<Suc ((length xs - k + k - 1) div k)]
         = take k xs # chunk k (drop k xs)" .
    have cnt: "(if xs = [] then 1 else (length xs + k - 1) div k)
                 = Suc ((length xs - k + k - 1) div k)"
      using ne k by (simp only: ceil_div_step if_False)
    show ?thesis unfolding cnt chunk_large [OF k] by (rule layout [symmetric])
  qed
qed

lemma assemble_upt:
  "assemble path hdr (map g [0..<m]) =
     map (\<lambda>j. (nth_file_path path j, (if j = 0 then hdr else []) @ concat (g j))) [0..<m]"
proof -
  have "enumerate 0 (map g [0..<m]) = map (\<lambda>j. (j, g j)) [0..<m]"
    by (simp add: enumerate_eq_zip zip_map2 zip_same_conv_map)
  then show ?thesis by (simp add: assemble_def comp_def)
qed

lemma expected_files_layout:
  "expected_files ex hdr render =
     map (\<lambda>j. (nth_file_path (file_path' ex) j,
               (if j = 0 then hdr else []) @ concat (map render (file_rows ex j))))
         [0..<file_count ex]"
proof (cases "row_limit' ex = 0")
  case True
  then show ?thesis
    by (simp add: expected_files_def chunk_small assemble_def file_count_def file_rows_def)
next
  case False
  then have k: "0 < row_limit' ex" by simp
  have "chunk (row_limit' ex) (map render (selected_rows ex)) =
          map (\<lambda>j. map render (file_rows ex j)) [0..<file_count ex]"
    using False by (simp add: chunk_layout [OF k] file_count_def file_rows_def take_map drop_map)
  then show ?thesis by (simp add: expected_files_def assemble_upt)
qed

lemma concat_assemble:
  "cs \<noteq> [] \<Longrightarrow> concat (map snd (assemble path hdr cs)) = hdr @ concat (concat cs)"
proof (induction cs rule: rev_induct)
  case Nil
  then show ?case by simp
next
  case (snoc c cs)
  show ?case
  proof (cases "cs = []")
    case True
    then show ?thesis by (simp add: assemble_def)
  next
    case False
    with snoc.IH show ?thesis by (simp add: assemble_snoc)
  qed
qed

lemma concat_expected_files:
  "concat (map snd (expected_files ex hdr render)) = hdr @ concat (map render (selected_rows ex))"
  by (simp add: expected_files_def concat_assemble)

lemma file_count_pos: "0 < file_count ex"
proof (cases "row_limit' ex = 0 \<or> selected_rows ex = []")
  case True
  then show ?thesis by (simp add: file_count_def)
next
  case False
  then have "row_limit' ex \<le> length (selected_rows ex) + row_limit' ex - 1"
    by (cases "selected_rows ex") auto
  with False show ?thesis by (simp add: file_count_def div_greater_zero_iff)
qed

text \<open>Every file but the last is full; the last one is not empty unless nothing was selected.\<close>

lemma ceil_div_less:
  assumes "0 < k" "j < (n + k - 1) div k"
  shows "j * k < (n::nat)"
proof -
  from assms have "Suc j \<le> (n + k - 1) div k" by simp
  with assms(1) have "Suc j * k \<le> n + k - 1" by (simp add: less_eq_div_iff_mult_less_eq)
  with assms(1) show ?thesis by simp
qed

lemma file_rows_full:
  assumes "row_limit' ex \<noteq> 0" "Suc j < file_count ex"
  shows "length (file_rows ex j) = row_limit' ex"
proof -
  from assms have "selected_rows ex \<noteq> []" by (auto simp: file_count_def)
  with assms have "Suc j * row_limit' ex < length (selected_rows ex)"
    by (intro ceil_div_less) (simp_all add: file_count_def)
  then show ?thesis using assms(1) by (simp add: file_rows_def)
qed

lemma file_rows_last:
  assumes "selected_rows ex \<noteq> []" "j < file_count ex"
  shows "file_rows ex j \<noteq> []"
proof (cases "row_limit' ex = 0")
  case True
  with assms show ?thesis by (simp add: file_rows_def)
next
  case False
  with assms have "j * row_limit' ex < length (selected_rows ex)"
    by (intro ceil_div_less) (simp_all add: file_count_def)
  with False show ?thesis by (simp add: file_rows_def)
qed

subsection \<open>The concrete tables\<close>

lemma upt_0_2: "[0..<2] = [0, 1]"
  by (simp add: numeral_2_eq_2)

lemma upt_0_3: "[0..<3] = [0, 1, 2]"
  by (simp add: numeral_3_eq_3)

lemma show_nat_digits: "show_nat 0 = ''0''" "show_nat (Suc 0) = ''1''" "show_nat 2 = ''2''"
  by (simp_all add: show_nat.simps [of 0] show_nat.simps [of "Suc 0"] show_nat.simps [of 2])

lemma demo_store_ok: "store_ok demo_env"
  by (simp add: store_ok_def demo_env_def)

lemma demo_arrow_ok: "arrow_ok demo_env"
  by (simp add: arrow_ok_def demo_env_def)

lemma demo_select: "select_columns_of (demo_request vis a b c) = [0, 1]"
  by (simp add: select_columns_of_def demo_request_def demo_columns_def upt_0_2)

lemma demo_column_vector:
  "column_vector_of demo_env s demo_block 0
     = [text_value kInteger ''1'', text_value kInteger ''2'', text_value kInteger ''3'']"
  "column_vector_of demo_env s demo_block (Suc 0)
     = [text_value kVarchar ''a'', text_value kVarchar ''b'', text_value kVarchar ''c'']"
  by (simp_all add: column_vector_of_def demo_env_def demo_block_def)

lemma demo_block_rows: "block_row_count demo_block = 3" "segment_offset demo_block = 0"
  by (simp_all add: demo_block_def)

lemma demo_index:
  "segment_block_index' (demo_request vis a b c) = [(0, \<lparr>visible = vis, block_map' = [demo_block]\<rparr>)]"
  by (simp add: demo_request_def)

lemma demo_text_request: "text_request demo_env (demo_request vis a b c)"
  by (simp add: text_request_def demo_store_ok columns_named_def blocks_consistent_def
        demo_select demo_column_vector demo_index demo_block_rows)
     (simp add: demo_request_def demo_columns_def)

lemma demo_parquet_request: "parquet_request demo_env (demo_request vis a b c)"
  by (simp add: parquet_request_def demo_arrow_ok parquet_columns_ok_def blocks_consistent_def
        demo_select demo_column_vector demo_index demo_block_rows)
     (simp add: demo_request_def demo_columns_def GetArrowType_def BuildArrowArray_builder_def)

lemma demo_visible_rows:
  "visible_rows (demo_request vis a b c) = map (\<lambda>i. (0, demo_block, i)) (filter vis [0, 1, 2])"
  by (simp add: visible_rows_def segment_visible_rows_def block_visible_rows_def demo_index
        demo_block_rows upt_0_3)

lemma demo_fields:
  "offset' (demo_request vis a b c) = a" "limit' (demo_request vis a b c) = b"
  "row_limit' (demo_request vis a b c) = c" "file_path' (demo_request vis a b c) = ''/tmp/t.csv''"
  "header' (demo_request vis a b c)" "delimiter' (demo_request vis a b c) = CHR '',''"
  by (simp_all add: demo_request_def)

lemma demo_header: "csv_header_text demo_env (demo_request vis a b c) = ''id,name'' @ [CHR 0x0A]"
  by (simp add: csv_header_text_def demo_fields demo_select text_line_def column_name_def)
     (simp add: demo_env_def demo_request_def demo_columns_def)

lemma demo_csv_rows:
  "csv_row_text demo_env (demo_request vis a b c) (0, demo_block, 0) = ''1,a'' @ [CHR 0x0A]"
  "csv_row_text demo_env (demo_request vis a b c) (0, demo_block, Suc 0) = ''2,b'' @ [CHR 0x0A]"
  "csv_row_text demo_env (demo_request vis a b c) (0, demo_block, 2) = ''3,c'' @ [CHR 0x0A]"
  by (simp_all add: csv_row_text_def row_values_def demo_select demo_column_vector demo_fields
        text_line_def csv_cell_def text_value_def)

lemma demo_vectors_fields:
  "offset' (demo_vectors_request cols a b c) = a" "limit' (demo_vectors_request cols a b c) = b"
  "row_limit' (demo_vectors_request cols a b c) = c"
  "file_path' (demo_vectors_request cols a b c) = ''/tmp/v.fvecs''"
  "column_idx_array' (demo_vectors_request cols a b c) = cols"
  "column_defs (demo_vectors_request cols a b c) = demo_vector_columns"
  by (simp_all add: demo_vectors_request_def)

lemma demo_fvecs_request: "fvecs_request (demo_vectors_request [0] a b c) 0 2"
  by (simp add: fvecs_request_def demo_vectors_request_def demo_vector_block_def
        demo_vector_columns_def)

lemma demo_vectors_visible_rows:
  "visible_rows (demo_vectors_request cols a b c)
     = [(0, demo_vector_block, 0), (0, demo_vector_block, 1)]"
  by (simp add: visible_rows_def segment_visible_rows_def block_visible_rows_def
        demo_vectors_request_def all_visible_def
        demo_vector_block_def [THEN arg_cong, of block_row_count] upt_0_2)

lemma expected_files_single:
  "row_limit' ex = 0 \<Longrightarrow>
   expected_files ex hdr render = [(file_path' ex, hdr @ concat (map render (selected_rows ex)))]"
  by (simp add: expected_files_layout file_count_def file_rows_def nth_file_path_def)

lemma demo_table_selected:
  "selected_rows demo_table = [(0, demo_block, 0), (0, demo_block, 1), (0, demo_block, 2)]"
  by (simp add: selected_rows_def take_limit_def demo_table_def demo_visible_rows demo_fields
        all_visible_def)

lemma i32_bytes_2: "i32_bytes 2 = [2, 0, 0, 0]"
  by (simp add: i32_bytes_def drop_bit_eq_div)


lemma parquet_fields_out_of_bounds:
  "parquet_fields ex pre = Inr fs \<Longrightarrow> \<not> c < length (column_defs ex) \<Longrightarrow>
   parquet_fields ex (pre @ c # post) = Inl (OutOfBoundsAccess c)"
  by (induction pre arbitrary: fs) (auto simp: Let_def split: if_splits sum.splits)

lemma concat_parquet_rows: "concat (map (parquet_row env ex) rs) = map (row_values env ex) rs"
  by (induction rs) (simp_all add: parquet_row_def)

lemma demo_selected:
  "selected_rows (demo_request vis a b c)
     = take_limit b (drop a (map (\<lambda>i. (0, demo_block, i)) (filter vis [0, 1, 2])))"
  by (simp add: selected_rows_def demo_visible_rows demo_fields)

lemma demo_vectors_selected:
  "selected_rows (demo_vectors_request cols a b c)
     = take_limit b (drop a [(0, demo_vector_block, 0), (0, demo_vector_block, 1)])"
  by (simp add: selected_rows_def demo_vectors_visible_rows demo_vectors_fields)

lemma file_count_spec:
  "file_count ex =
     (if row_limit' ex = 0 \<or> selected_rows ex = [] then 1
      else spec_file_count (length (selected_rows ex)) (row_limit' ex))"
  by (simp add: file_count_def spec_file_count_def)

lemma upt_0_file_count: "[0..<file_count ex] = 0 # [1..<file_count ex]"
  using file_count_pos [of ex] by (simp add: upt_conv_Cons)

section \<open>Type lowering: the claims\<close>

text \<open>
  Claim C4, as the code has it: a \<open>kBFloat16\<close> column is upcast, to a
  32-bit float field and a \<open>FloatBuilder\<close>; a \<open>kFloat16\<close> column is not, it keeps
  the 16-bit half-float field and gets a \<open>HalfFloatBuilder\<close>.
\<close>

theorem C4_sixteen_bit_floats:
  "(logical_type (column_type column_def) = kBFloat16 \<longrightarrow>
      GetArrowType column_def = Inr arrow_float32 \<and>
      BuildArrowArray_builder column_def = Inr FloatBuilder) \<and>
   (logical_type (column_type column_def) = kFloat16 \<longrightarrow>
      GetArrowType column_def = Inr arrow_float16 \<and>
      BuildArrowArray_builder column_def = Inr HalfFloatBuilder)"
  by (simp add: GetArrowType_def BuildArrowArray_builder_def)

theorem C4_sixteen_bit_floats_witness:
  "GetArrowType \<lparr>name = ''b'', column_type = \<lparr>logical_type = kBFloat16, type_info = NoTypeInfo\<rparr>\<rparr>
     = Inr arrow_float32 \<and>
   BuildArrowArray_builder
     \<lparr>name = ''b'', column_type = \<lparr>logical_type = kBFloat16, type_info = NoTypeInfo\<rparr>\<rparr>
     = Inr FloatBuilder \<and>
   GetArrowType \<lparr>name = ''h'', column_type = \<lparr>logical_type = kFloat16, type_info = NoTypeInfo\<rparr>\<rparr>
     = Inr arrow_float16 \<and>
   BuildArrowArray_builder
     \<lparr>name = ''h'', column_type = \<lparr>logical_type = kFloat16, type_info = NoTypeInfo\<rparr>\<rparr>
     = Inr HalfFloatBuilder"
  using C4_sixteen_bit_floats
          [of "\<lparr>name = ''b'', column_type = \<lparr>logical_type = kBFloat16, type_info = NoTypeInfo\<rparr>\<rparr>"]
        C4_sixteen_bit_floats
          [of "\<lparr>name = ''h'', column_type = \<lparr>logical_type = kFloat16, type_info = NoTypeInfo\<rparr>\<rparr>"]
  by simp

text \<open>
  Claim C4 as stated fails on a \<open>kFloat16\<close> column: its field is the half-float type
  and its builder the half-float builder, neither of them the 32-bit one.
\<close>

theorem C4_float16_counterexample:
  "GetArrowType \<lparr>name = ''h'', column_type = \<lparr>logical_type = kFloat16, type_info = NoTypeInfo\<rparr>\<rparr>
     \<noteq> Inr arrow_float32 \<and>
   BuildArrowArray_builder
     \<lparr>name = ''h'', column_type = \<lparr>logical_type = kFloat16, type_info = NoTypeInfo\<rparr>\<rparr>
     \<noteq> Inr FloatBuilder"
  by (simp add: GetArrowType_def BuildArrowArray_builder_def)

text \<open>
  Claim C5 at a sparse column with single-bit elements and 32-bit indices: the schema
  is a struct with the one field \<open>index\<close>, but the builder is never made, because
  the struct type of the builder reads the type of the null value builder.
\<close>

theorem C5_sparse_bit_builder:
  "GetArrowType
     \<lparr>name = ''s'',
      column_type = \<lparr>logical_type = kSparse, type_info = SparseInfo kElemBit kElemInt32 128\<rparr>\<rparr>
     = Inr (arrow_struct [(''index'', arrow_list arrow_int32)]) \<and>
   BuildArrowArray_builder
     \<lparr>name = ''s'',
      column_type = \<lparr>logical_type = kSparse, type_info = SparseInfo kElemBit kElemInt32 128\<rparr>\<rparr>
     = Inl NullPointerDereference"
  by (simp add: GetArrowType_def GetArrowType_sparse_def BuildArrowArray_builder_def
        array_builder_sparse_def)


section \<open>The sinks: the claims\<close>

text \<open>
  Claim C8. A delimited-text export into a single file writes the header line when the
  header flag is on, the names of the selected columns separated by the delimiter with
  the virtual columns under their synthetic names, and then one line per selected row:
  the text of its cells separated by the delimiter and terminated by a newline, where
  only the cells of the vector family and of sparse vectors are wrapped in quotes. On
  the table \<open>(id, name)\<close> with the rows \<open>(1, a)\<close>, \<open>(2, b)\<close>, \<open>(3, c)\<close> this is the
  file \<open>id,name\n1,a\n2,b\n3,c\n\<close>, the instance stated after the theorem.
\<close>

theorem C8_delimited_text:
  "(text_request env ex \<and> row_limit' ex = 0 \<longrightarrow>
      ExportToCSV env ex =
        Inr (length (selected_rows ex),
             [(file_path' ex,
               csv_header_text env ex @ concat (map (csv_row_text env ex) (selected_rows ex)))])) \<and>
   csv_header_text env ex =
     (if header' ex
      then delimited (delimiter' ex) (map (column_name env ex) (select_columns_of ex)) @ [CHR 0x0A]
      else []) \<and>
   csv_row_text env ex r =
     delimited (delimiter' ex) (map csv_cell (row_values env ex r)) @ [CHR 0x0A] \<and>
   column_name env ex (COLUMN_IDENTIFIER_ROW_ID env) = ''_row_id'' \<and>
   csv_cell v =
     (if value_type v \<in> {kEmbedding, kMultiVector, kTensor, kTensorArray, kSparse}
      then [CHR 0x22] @ ToString v @ [CHR 0x22] else ToString v)"
proof -
  have "ExportToCSV env ex =
          Inr (length (selected_rows ex),
               [(file_path' ex,
                 csv_header_text env ex @ concat (map (csv_row_text env ex) (selected_rows ex)))])"
    if "text_request env ex" "row_limit' ex = 0"
    using that ExportToCSV_closed [of env ex]
    by (simp add: text_request_def expected_files_single)
  then show ?thesis
    by (auto simp: csv_header_text_def csv_row_text_def text_line_def column_name_def csv_cell_def)
qed

theorem C8_delimited_text_witness:
  "text_request demo_env demo_table \<and> row_limit' demo_table = 0 \<and>
   ExportToCSV demo_env demo_table =
     Inr (3, [(''/tmp/t.csv'',
               ''id,name'' @ [CHR 0x0A] @ ''1,a'' @ [CHR 0x0A] @ ''2,b'' @ [CHR 0x0A] @
               ''3,c'' @ [CHR 0x0A])])"
proof -
  have r: "text_request demo_env demo_table" "row_limit' demo_table = 0"
    by (simp_all add: demo_table_def demo_text_request demo_fields)
  with C8_delimited_text [of demo_env demo_table]
  have "ExportToCSV demo_env demo_table =
          Inr (length (selected_rows demo_table),
               [(file_path' demo_table,
                 csv_header_text demo_env demo_table @
                 concat (map (csv_row_text demo_env demo_table) (selected_rows demo_table)))])"
    by blast
  then show ?thesis using r
    by (simp add: demo_table_selected)
       (simp add: demo_table_def demo_header demo_csv_rows demo_fields)
qed



text \<open>
  Claim C10. When the selected columns of a Parquet export contain the identifier of a
  virtual column, and that identifier is not an index into the column definitions, the
  construction of the schema reads the column definitions at that identifier: the
  export ends in an access out of bounds as soon as the columns before it have been
  lowered, not in a recoverable fault. The block loop that the sinks share fetches a
  column vector for the same identifier, and the text and JSON sinks give it its
  synthetic name.
\<close>

theorem C10_parquet_virtual_column:
  "(c = COLUMN_IDENTIFIER_ROW_ID env \<or> c = COLUMN_IDENTIFIER_CREATE env \<or>
    c = COLUMN_IDENTIFIER_DELETE env) \<and>
   \<not> c < length (column_defs ex) \<and>
   select_columns_of ex = pre @ c # post \<and> parquet_fields ex pre = Inr fs \<longrightarrow>
     ExportToPARQUET env ex = Inl (OutOfBoundsAccess c) \<and>
     (\<exists>column_vector. materialize_columns env segment_id block_entry [c] = Inr [column_vector]) \<and>
     csv_header env ex [c] = Inr (column_name env ex c @ [CHR 0x0A]) \<and>
     (i < length cv \<longrightarrow>
        jsonl_columns js env ex [c] [cv] i j = Inr (AppendToJson js (cv ! i) (column_name env ex c) j)) \<and>
     column_name env ex c \<in> {''_row_id'', ''_create_timestamp'', ''_delete_timestamp''}"
proof (intro impI, elim conjE)
  assume v: "c = COLUMN_IDENTIFIER_ROW_ID env \<or> c = COLUMN_IDENTIFIER_CREATE env \<or>
             c = COLUMN_IDENTIFIER_DELETE env"
    and o: "\<not> c < length (column_defs ex)"
    and s: "select_columns_of ex = pre @ c # post" and p: "parquet_fields ex pre = Inr fs"
  from parquet_fields_out_of_bounds [OF p o, of post] s
  have "ExportToPARQUET env ex = Inl (OutOfBoundsAccess c)"
    by (simp add: ExportToPARQUET_def)
  moreover from v
  have "\<exists>column_vector. materialize_columns env segment_id block_entry [c] = Inr [column_vector]"
    by auto
  moreover from v have l: "\<forall>x \<in> set [c]. x = COLUMN_IDENTIFIER_ROW_ID env \<or>
      x = COLUMN_IDENTIFIER_CREATE env \<or> x = COLUMN_IDENTIFIER_DELETE env \<or>
      x < length (column_defs ex)" by auto
  then have "csv_header env ex [c] = Inr (column_name env ex c @ [CHR 0x0A])"
    using csv_header_ok [of "[c]" env ex] by (simp add: text_line_def)
  moreover have "jsonl_columns js env ex [c] [cv] i j
                   = Inr (AppendToJson js (cv ! i) (column_name env ex c) j)" if "i < length cv"
    using jsonl_columns_ok [of "[cv]" "[c]" i env ex js j] l that by simp
  moreover from v
  have "column_name env ex c \<in> {''_row_id'', ''_create_timestamp'', ''_delete_timestamp''}"
    by (auto simp: column_name_def)
  ultimately show "ExportToPARQUET env ex = Inl (OutOfBoundsAccess c) \<and>
     (\<exists>column_vector. materialize_columns env segment_id block_entry [c] = Inr [column_vector]) \<and>
     csv_header env ex [c] = Inr (column_name env ex c @ [CHR 0x0A]) \<and>
     (i < length cv \<longrightarrow>
        jsonl_columns js env ex [c] [cv] i j = Inr (AppendToJson js (cv ! i) (column_name env ex c) j)) \<and>
     column_name env ex c \<in> {''_row_id'', ''_create_timestamp'', ''_delete_timestamp''}"
    by blast
qed

theorem C10_parquet_virtual_column_witness:
  "(18446744073709551615 = COLUMN_IDENTIFIER_ROW_ID demo_env \<or>
    18446744073709551615 = COLUMN_IDENTIFIER_CREATE demo_env \<or>
    18446744073709551615 = COLUMN_IDENTIFIER_DELETE demo_env) \<and>
   \<not> 18446744073709551615
       < length (column_defs (demo_table\<lparr>column_idx_array' := [0, 18446744073709551615]\<rparr>)) \<and>
   select_columns_of (demo_table\<lparr>column_idx_array' := [0, 18446744073709551615]\<rparr>)
     = [0] @ 18446744073709551615 # [] \<and>
   parquet_fields (demo_table\<lparr>column_idx_array' := [0, 18446744073709551615]\<rparr>) [0]
     = Inr [(''id'', arrow_int32)] \<and>
   ExportToPARQUET demo_env (demo_table\<lparr>column_idx_array' := [0, 18446744073709551615]\<rparr>)
     = Inl (OutOfBoundsAccess 18446744073709551615) \<and>
   csv_header demo_env (demo_table\<lparr>column_idx_array' := [0, 18446744073709551615]\<rparr>)
     [18446744073709551615] = Inr (''_row_id'' @ [CHR 0x0A])"
proof -
  let ?ex = "demo_table\<lparr>column_idx_array' := [0, 18446744073709551615]\<rparr>"
  have h: "18446744073709551615 = COLUMN_IDENTIFIER_ROW_ID demo_env \<or>
           18446744073709551615 = COLUMN_IDENTIFIER_CREATE demo_env \<or>
           18446744073709551615 = COLUMN_IDENTIFIER_DELETE demo_env"
    "\<not> 18446744073709551615 < length (column_defs ?ex)"
    "select_columns_of ?ex = [0] @ 18446744073709551615 # []"
    "parquet_fields ?ex [0] = Inr [(''id'', arrow_int32)]"
    by (simp_all add: demo_env_def demo_table_def demo_request_def demo_columns_def
          select_columns_of_def GetArrowType_def)
  have n: "column_name demo_env ?ex 18446744073709551615 = ''_row_id''"
    by (simp add: column_name_def demo_env_def)
  from h have pre:
    "(18446744073709551615 = COLUMN_IDENTIFIER_ROW_ID demo_env \<or>
      18446744073709551615 = COLUMN_IDENTIFIER_CREATE demo_env \<or>
      18446744073709551615 = COLUMN_IDENTIFIER_DELETE demo_env) \<and>
     \<not> 18446744073709551615 < length (column_defs ?ex) \<and>
     select_columns_of ?ex = [0] @ 18446744073709551615 # [] \<and>
     parquet_fields ?ex [0] = Inr [(''id'', arrow_int32)]"
    by (intro conjI)
  note t = C10_parquet_virtual_column
             [of 18446744073709551615 demo_env ?ex "[0]" "[]" "[(''id'', arrow_int32)]"
                 0 demo_block 0 "[]" demo_json "[]", THEN mp, OF pre]
  from t have e1: "ExportToPARQUET demo_env ?ex = Inl (OutOfBoundsAccess 18446744073709551615)"
    by (rule conjunct1)
  from t have e2: "csv_header demo_env ?ex [18446744073709551615] = Inr (''_row_id'' @ [CHR 0x0A])"
    unfolding n by blast
  from h e1 e2 show ?thesis by (intro conjI)
qed




text \<open>
  Claim C1, as the code has it. With \<open>R\<close> visible rows, offset \<open>o\<close> and limit \<open>l\<close>,
  every export returns \<open>R - o\<close> rows when \<open>l = 0\<close> and the smaller of \<open>R - o\<close> and
  \<open>l\<close> otherwise, where \<open>R - o\<close> is 0 when the offset exceeds \<open>R\<close>. What the
  files hold is exactly that many rows, the first ones after the offset: once the limit
  is reached the three loops are left and no further row is written.
\<close>

theorem C1_row_count:
  "(text_request env ex \<longrightarrow>
      (\<exists>files. ExportToCSV env ex = Inr (exported_row_count ex, files) \<and>
         concat (map snd files) =
           csv_header_text env ex @
           concat (map (csv_row_text env ex)
                       (take (exported_row_count ex) (drop (offset' ex) (visible_rows ex)))))) \<and>
   (text_request env ex \<longrightarrow>
      (\<exists>files. ExportToJSONL js env ex = Inr (exported_row_count ex, files) \<and>
         concat (map snd files) =
           concat (map (jsonl_row_text js env ex)
                       (take (exported_row_count ex) (drop (offset' ex) (visible_rows ex)))))) \<and>
   (store_ok env \<and> fvecs_request ex c d \<longrightarrow>
      (\<exists>files. ExportToFVECS env ex = Inr (exported_row_count ex, files) \<and>
         concat (map snd files) =
           concat (map (fvecs_row_bytes d c)
                       (take (exported_row_count ex) (drop (offset' ex) (visible_rows ex)))))) \<and>
   (parquet_request env ex \<longrightarrow>
      (\<exists>schema files. ExportToPARQUET env ex = Inr (exported_row_count ex, schema, files) \<and>
         concat (map snd (map parquet_file_rows files)) =
           map (row_values env ex)
               (take (exported_row_count ex) (drop (offset' ex) (visible_rows ex)))))"
proof (intro conjI impI)
  assume "text_request env ex"
  then have r: "store_ok env" "columns_named env ex" "blocks_consistent env ex"
    by (simp_all add: text_request_def)
  from ExportToCSV_closed [OF r]
  show "\<exists>files. ExportToCSV env ex = Inr (exported_row_count ex, files) \<and>
         concat (map snd files) =
           csv_header_text env ex @
           concat (map (csv_row_text env ex)
                       (take (exported_row_count ex) (drop (offset' ex) (visible_rows ex))))"
    by (simp add: length_selected_rows concat_expected_files selected_rows_take [symmetric])
  from ExportToJSONL_closed [OF r, where js = js]
  show "\<exists>files. ExportToJSONL js env ex = Inr (exported_row_count ex, files) \<and>
         concat (map snd files) =
           concat (map (jsonl_row_text js env ex)
                       (take (exported_row_count ex) (drop (offset' ex) (visible_rows ex))))"
    by (simp add: length_selected_rows concat_expected_files selected_rows_take [symmetric])
next
  assume "store_ok env \<and> fvecs_request ex c d"
  then have r: "store_ok env" "fvecs_request ex c d" by simp_all
  from ExportToFVECS_closed [OF r]
  show "\<exists>files. ExportToFVECS env ex = Inr (exported_row_count ex, files) \<and>
         concat (map snd files) =
           concat (map (fvecs_row_bytes d c)
                       (take (exported_row_count ex) (drop (offset' ex) (visible_rows ex))))"
    by (simp add: length_selected_rows concat_expected_files selected_rows_take [symmetric])
next
  assume "parquet_request env ex"
  then have r: "arrow_ok env" "parquet_columns_ok ex" "blocks_consistent env ex"
    by (simp_all add: parquet_request_def)
  from ExportToPARQUET_closed [OF r]
  obtain schema files
    where e: "ExportToPARQUET env ex = Inr (length (selected_rows ex), schema, files)"
      and f: "map parquet_file_rows files = expected_files ex [] (parquet_row env ex)" by blast
  have "concat (map snd (map parquet_file_rows files)) =
          map (row_values env ex)
              (take (exported_row_count ex) (drop (offset' ex) (visible_rows ex)))"
    unfolding f
    by (simp add: concat_expected_files concat_parquet_rows selected_rows_take [symmetric])
  with e show "\<exists>schema files. ExportToPARQUET env ex = Inr (exported_row_count ex, schema, files) \<and>
         concat (map snd (map parquet_file_rows files)) =
           map (row_values env ex)
               (take (exported_row_count ex) (drop (offset' ex) (visible_rows ex)))"
    by (auto simp: length_selected_rows)
qed

theorem C1_row_count_witness:
  "text_request demo_env (demo_request second_deleted 0 1 0) \<and>
   store_ok demo_env \<and> fvecs_request (demo_vectors_request [0] 1 0 0) 0 2 \<and>
   parquet_request demo_env (demo_request second_deleted 0 1 0) \<and>
   (\<exists>files. ExportToCSV demo_env (demo_request second_deleted 0 1 0) = Inr (1, files) \<and>
      concat (map snd files) = ''id,name'' @ [CHR 0x0A] @ ''1,a'' @ [CHR 0x0A]) \<and>
   (\<exists>files. ExportToJSONL demo_json demo_env (demo_request second_deleted 0 1 0)
               = Inr (1, files)) \<and>
   (\<exists>files. ExportToFVECS demo_env (demo_vectors_request [0] 1 0 0) = Inr (1, files)) \<and>
   (\<exists>schema files. ExportToPARQUET demo_env (demo_request second_deleted 0 1 0)
                      = Inr (1, schema, files))"
proof -
  let ?t = "demo_request second_deleted 0 1 0" and ?v = "demo_vectors_request [0] 1 0 0"
  have h: "text_request demo_env ?t" "store_ok demo_env" "fvecs_request ?v 0 2"
    "parquet_request demo_env ?t"
    by (simp_all add: demo_text_request demo_store_ok demo_fvecs_request demo_parquet_request)
  have n: "exported_row_count ?t = 1" "exported_row_count ?v = 1"
    by (simp_all add: exported_row_count_def demo_visible_rows demo_vectors_visible_rows
          demo_fields demo_vectors_fields second_deleted_def)
  have s: "take 1 (drop (offset' ?t) (visible_rows ?t)) = [(0, demo_block, 0)]"
    by (simp add: demo_visible_rows demo_fields second_deleted_def)
  note a = C1_row_count [of demo_env ?t demo_json 0 2, unfolded n s]
  note b = C1_row_count [of demo_env ?v demo_json 0 2, unfolded n]
  from a h have csv: "\<exists>files. ExportToCSV demo_env ?t = Inr (1, files) \<and>
      concat (map snd files) = ''id,name'' @ [CHR 0x0A] @ ''1,a'' @ [CHR 0x0A]"
    by (simp add: demo_header demo_csv_rows)
  from a h have jsonl: "\<exists>files. ExportToJSONL demo_json demo_env ?t = Inr (1, files)"
    by blast
  from b h have fvecs: "\<exists>files. ExportToFVECS demo_env ?v = Inr (1, files)"
    by blast
  from a h have pq: "\<exists>schema files. ExportToPARQUET demo_env ?t = Inr (1, schema, files)"
    by blast
  from h csv jsonl fvecs pq show ?thesis by (intro conjI)
qed

text \<open>
  Claim C1 as stated fails where the offset exceeds the number of visible rows and the
  limit is 0: on the three-row table with offset 5 the export returns 0 rows, while the
  formula of the claim gives \<open>min (max (3 - 5) 0) (3 - 5) = - 2\<close>.
\<close>

theorem C1_offset_counterexample:
  "ExportToCSV demo_env (demo_request all_visible 5 0 0)
     = Inr (0, [(''/tmp/t.csv'', ''id,name'' @ [CHR 0x0A])]) \<and>
   int (length (visible_rows (demo_request all_visible 5 0 0))) = 3 \<and>
   spec_row_count 3 (int (offset' (demo_request all_visible 5 0 0)))
                    (int (limit' (demo_request all_visible 5 0 0))) = - 2"
proof -
  let ?t = "demo_request all_visible 5 0 0"
  have "text_request demo_env ?t" by (rule demo_text_request)
  then have "ExportToCSV demo_env ?t =
               Inr (length (selected_rows ?t),
                    expected_files ?t (csv_header_text demo_env ?t) (csv_row_text demo_env ?t))"
    by (simp add: text_request_def ExportToCSV_closed)
  then show ?thesis
    by (simp add: expected_files_single demo_fields demo_selected take_limit_def all_visible_def
          demo_header demo_visible_rows spec_row_count_def)
qed

text \<open>
  Claim C2. The row loops test the delete filter first: at a row that is not visible
  the body of the row loop of the text, JSON and FVECS sinks leaves the state as it is,
  offset, row count and files, and the collecting loop of the Parquet sink goes on to
  the next row with its offset, its row count and its batch unchanged. Hence every
  export writes the selected rows and nothing else, in scan order: the visible rows,
  without the first \<open>offset\<close> of them, cut after \<open>limit\<close> of them, split into
  files by the per-file row limit.
\<close>

theorem C2_filter_before_budget:
  "(\<not> visible_fn (seg_off + row_idx) \<longrightarrow>
      export_row env ex visible_fn seg_off record_of row_idx st = Inr (Continue, st)) \<and>
   (i < n \<and> \<not> visible_fn (seg_off + i) \<longrightarrow>
      collect_rows ex visible_fn seg_off n i rows off rc
        = collect_rows ex visible_fn seg_off n (Suc i) rows off rc) \<and>
   (text_request env ex \<longrightarrow>
      ExportToCSV env ex =
        Inr (length (selected_rows ex),
             expected_files ex (csv_header_text env ex) (csv_row_text env ex))) \<and>
   (text_request env ex \<longrightarrow>
      ExportToJSONL js env ex =
        Inr (length (selected_rows ex), expected_files ex [] (jsonl_row_text js env ex))) \<and>
   (store_ok env \<and> fvecs_request ex c d \<longrightarrow>
      ExportToFVECS env ex =
        Inr (length (selected_rows ex), expected_files ex [] (fvecs_row_bytes d c))) \<and>
   (parquet_request env ex \<longrightarrow>
      (\<exists>schema files.
         ExportToPARQUET env ex = Inr (length (selected_rows ex), schema, files) \<and>
         map parquet_file_rows files = expected_files ex [] (parquet_row env ex))) \<and>
   selected_rows ex = take_limit (limit' ex) (drop (offset' ex) (visible_rows ex)) \<and>
   visible_rows ex =
     concat (map (\<lambda>s. concat (map (\<lambda>b. map (\<lambda>i. (fst s, b, i))
                                           (filter (\<lambda>i. visible (snd s) (segment_offset b + i))
                                                   [0..<block_row_count b]))
                                  (block_map' (snd s))))
                 (segment_block_index' ex)) \<and>
   concat (map snd (expected_files ex hdr render)) = hdr @ concat (map render (selected_rows ex))"
proof -
  have "export_row env ex visible_fn seg_off record_of row_idx st = Inr (Continue, st)"
    if "\<not> visible_fn (seg_off + row_idx)"
    using that by (simp add: export_row_def)
  moreover have "collect_rows ex visible_fn seg_off n i rows off rc
                   = collect_rows ex visible_fn seg_off n (Suc i) rows off rc"
    if "i < n \<and> \<not> visible_fn (seg_off + i)"
    using that by (simp add: collect_rows_invisible)
  moreover have "ExportToCSV env ex =
        Inr (length (selected_rows ex),
             expected_files ex (csv_header_text env ex) (csv_row_text env ex))"
     and "ExportToJSONL js env ex =
        Inr (length (selected_rows ex), expected_files ex [] (jsonl_row_text js env ex))"
    if "text_request env ex"
    using that by (simp_all add: text_request_def ExportToCSV_closed ExportToJSONL_closed)
  moreover have "ExportToFVECS env ex =
        Inr (length (selected_rows ex), expected_files ex [] (fvecs_row_bytes d c))"
    if "store_ok env \<and> fvecs_request ex c d"
    using that by (simp add: ExportToFVECS_closed)
  moreover have "\<exists>schema files.
         ExportToPARQUET env ex = Inr (length (selected_rows ex), schema, files) \<and>
         map parquet_file_rows files = expected_files ex [] (parquet_row env ex)"
    if "parquet_request env ex"
    using that by (simp add: parquet_request_def ExportToPARQUET_closed)
  moreover have "selected_rows ex = take_limit (limit' ex) (drop (offset' ex) (visible_rows ex))"
    by (simp add: selected_rows_def)
  moreover have "visible_rows ex =
     concat (map (\<lambda>s. concat (map (\<lambda>b. map (\<lambda>i. (fst s, b, i))
                                           (filter (\<lambda>i. visible (snd s) (segment_offset b + i))
                                                   [0..<block_row_count b]))
                                  (block_map' (snd s))))
                 (segment_block_index' ex))"
    unfolding visible_rows_def segment_visible_rows_def [abs_def] block_visible_rows_def [abs_def]
    by simp
  moreover have "concat (map snd (expected_files ex hdr render))
                   = hdr @ concat (map render (selected_rows ex))"
    by (rule concat_expected_files)
  ultimately show ?thesis by blast
qed

theorem C2_filter_before_budget_witness:
  "\<not> second_deleted (0 + 1) \<and> (1::nat) < 3 \<and>
   text_request demo_env (demo_request second_deleted 1 1 0) \<and>
   store_ok demo_env \<and> fvecs_request (demo_vectors_request [0] 1 1 0) 0 2 \<and>
   parquet_request demo_env (demo_request second_deleted 1 1 0) \<and>
   export_row demo_env (demo_request second_deleted 1 1 0) second_deleted 0
       (csv_line (demo_request second_deleted 1 1 0) []) 1
       \<lparr>offset = 1, row_count = 0, file_no' = 0, closed_files = [],
        file_handle = (''/tmp/t.csv'', [])\<rparr>
     = Inr (Continue, \<lparr>offset = 1, row_count = 0, file_no' = 0, closed_files = [],
                       file_handle = (''/tmp/t.csv'', [])\<rparr>) \<and>
   collect_rows (demo_request second_deleted 1 1 0) second_deleted 0 3 1 [] 1 0
     = collect_rows (demo_request second_deleted 1 1 0) second_deleted 0 3 (Suc 1) [] 1 0 \<and>
   ExportToCSV demo_env (demo_request second_deleted 1 1 0)
     = Inr (1, [(''/tmp/t.csv'', ''id,name'' @ [CHR 0x0A] @ ''3,c'' @ [CHR 0x0A])]) \<and>
   ExportToFVECS demo_env (demo_vectors_request [0] 1 1 0)
     = Inr (1, [(''/tmp/v.fvecs'',
                 [0x02, 0x00, 0x00, 0x00, 0x00, 0x00, 0x40, 0x40, 0x00, 0x00, 0x80, 0x40])]) \<and>
   (\<exists>files. ExportToJSONL demo_json demo_env (demo_request second_deleted 1 1 0)
               = Inr (1, files)) \<and>
   (\<exists>schema files.
      ExportToPARQUET demo_env (demo_request second_deleted 1 1 0) = Inr (1, schema, files) \<and>
      map parquet_file_rows files
        = [(''/tmp/t.csv'', [[text_value kInteger ''3'', text_value kVarchar ''c'']])])"
proof -
  let ?t = "demo_request second_deleted 1 1 0" and ?v = "demo_vectors_request [0] 1 1 0"
  let ?st = "\<lparr>offset = 1, row_count = 0, file_no' = 0, closed_files = [],
              file_handle = (''/tmp/t.csv'', ([]::string))\<rparr>"
  have h: "\<not> second_deleted (0 + 1)" "(1::nat) < 3" "text_request demo_env ?t" "store_ok demo_env"
    "fvecs_request ?v 0 2" "parquet_request demo_env ?t"
    by (simp_all add: demo_text_request demo_store_ok demo_fvecs_request demo_parquet_request
          second_deleted_def)
  have st: "selected_rows ?t = [(0, demo_block, 2)]"
    by (simp add: demo_selected take_limit_def second_deleted_def)
  have sv: "selected_rows ?v = [(0, demo_vector_block, 1)]"
    by (simp add: demo_vectors_selected take_limit_def)
  have ft: "expected_files ?t hdr render = [(''/tmp/t.csv'', hdr @ render (0, demo_block, 2))]"
    for hdr :: "'a list" and render
    using st by (simp add: expected_files_single demo_fields)
  have fv: "expected_files ?v [] (fvecs_row_bytes 2 0)
              = [(''/tmp/v.fvecs'',
                  [0x02, 0x00, 0x00, 0x00, 0x00, 0x00, 0x40, 0x40, 0x00, 0x00, 0x80, 0x40])]"
    using sv
    by (simp add: expected_files_single demo_vectors_fields fvecs_row_bytes_def i32_bytes_2
          demo_vector_block_def)
  have pr: "parquet_row demo_env ?t (0, demo_block, 2)
              = [[text_value kInteger ''3'', text_value kVarchar ''c'']]"
    by (simp add: parquet_row_def row_values_def demo_select demo_column_vector)
  note a = C2_filter_before_budget
             [of second_deleted 0 1 demo_env ?t "csv_line ?t []" ?st 1 3 "[]" 1 0 demo_json 0 2
                 "[]::string" "csv_row_text demo_env ?t",
              unfolded st ft]
  note b = C2_filter_before_budget
             [of second_deleted 0 1 demo_env ?v "csv_line ?t []" ?st 1 3 "[]" 1 0 demo_json 0 2
                 "[]::string" "csv_row_text demo_env ?t",
              unfolded sv fv]
  from a h have e1: "export_row demo_env ?t second_deleted 0 (csv_line ?t []) 1 ?st
                       = Inr (Continue, ?st)" by blast
  from a h have e2: "collect_rows ?t second_deleted 0 3 1 [] 1 0
                       = collect_rows ?t second_deleted 0 3 (Suc 1) [] 1 0" by blast
  from a h have e3: "ExportToCSV demo_env ?t
                       = Inr (1, [(''/tmp/t.csv'', ''id,name'' @ [CHR 0x0A] @ ''3,c'' @ [CHR 0x0A])])"
    by (simp add: demo_header demo_csv_rows)
  from b h have e4: "ExportToFVECS demo_env ?v
     = Inr (1, [(''/tmp/v.fvecs'',
                 [0x02, 0x00, 0x00, 0x00, 0x00, 0x00, 0x40, 0x40, 0x00, 0x00, 0x80, 0x40])])"
    by simp
  from a h have e5: "\<exists>files. ExportToJSONL demo_json demo_env ?t = Inr (1, files)"
    by simp
  from a h pr have e6: "\<exists>schema files.
      ExportToPARQUET demo_env ?t = Inr (1, schema, files) \<and>
      map parquet_file_rows files
        = [(''/tmp/t.csv'', [[text_value kInteger ''3'', text_value kVarchar ''c'']])]"
    by simp
  from h e1 e2 e3 e4 e5 e6 show ?thesis by (intro conjI)
qed

text \<open>
  Claim C3, as the code has it. With a per-file row limit \<open>k\<close> and \<open>n\<close> selected rows
  every export writes \<open>file_count\<close> files, named \<open>{path}\<close>, \<open>{path}.part1\<close>,
  \<open>{path}.part2\<close>, ...: \<open>n / k\<close> rounded up when \<open>k > 0\<close> and \<open>n > 0\<close>, and the one
  base file when \<open>k = 0\<close> or when \<open>n = 0\<close>. File \<open>j\<close> holds the rows from \<open>j * k\<close>
  on, at most \<open>k\<close> of them; every file but the last holds exactly \<open>k\<close> rows, and
  when a row was selected no file is empty, so no empty file trails a multiple of \<open>k\<close>.
\<close>

theorem C3_file_splitting:
  "(text_request env ex \<longrightarrow>
      ExportToCSV env ex =
        Inr (length (selected_rows ex),
             map (\<lambda>j. (nth_file_path (file_path' ex) j,
                       (if j = 0 then csv_header_text env ex else []) @
                       concat (map (csv_row_text env ex) (file_rows ex j))))
                 [0..<file_count ex])) \<and>
   (text_request env ex \<longrightarrow>
      ExportToJSONL js env ex =
        Inr (length (selected_rows ex),
             map (\<lambda>j. (nth_file_path (file_path' ex) j,
                       concat (map (jsonl_row_text js env ex) (file_rows ex j))))
                 [0..<file_count ex])) \<and>
   (store_ok env \<and> fvecs_request ex c d \<longrightarrow>
      ExportToFVECS env ex =
        Inr (length (selected_rows ex),
             map (\<lambda>j. (nth_file_path (file_path' ex) j,
                       concat (map (fvecs_row_bytes d c) (file_rows ex j))))
                 [0..<file_count ex])) \<and>
   (parquet_request env ex \<longrightarrow>
      (\<exists>schema files.
         ExportToPARQUET env ex = Inr (length (selected_rows ex), schema, files) \<and>
         map parquet_file_rows files =
           map (\<lambda>j. (nth_file_path (file_path' ex) j, map (row_values env ex) (file_rows ex j)))
               [0..<file_count ex])) \<and>
   file_count ex =
     (if row_limit' ex = 0 \<or> selected_rows ex = [] then 1
      else spec_file_count (length (selected_rows ex)) (row_limit' ex)) \<and>
   file_rows ex j =
     (if row_limit' ex = 0 then selected_rows ex
      else take (row_limit' ex) (drop (j * row_limit' ex) (selected_rows ex))) \<and>
   (row_limit' ex \<noteq> 0 \<and> Suc j < file_count ex \<longrightarrow> length (file_rows ex j) = row_limit' ex) \<and>
   (selected_rows ex \<noteq> [] \<and> j < file_count ex \<longrightarrow> file_rows ex j \<noteq> []) \<and>
   nth_file_path p j = (if j = 0 then p else p @ ''.part'' @ show_nat j)"
proof -
  have "ExportToCSV env ex =
        Inr (length (selected_rows ex),
             map (\<lambda>j. (nth_file_path (file_path' ex) j,
                       (if j = 0 then csv_header_text env ex else []) @
                       concat (map (csv_row_text env ex) (file_rows ex j))))
                 [0..<file_count ex])"
    and "ExportToJSONL js env ex =
        Inr (length (selected_rows ex),
             map (\<lambda>j. (nth_file_path (file_path' ex) j,
                       concat (map (jsonl_row_text js env ex) (file_rows ex j))))
                 [0..<file_count ex])"
    if "text_request env ex"
    using that
    by (simp_all add: text_request_def ExportToCSV_closed ExportToJSONL_closed
          expected_files_layout)
  moreover have "ExportToFVECS env ex =
        Inr (length (selected_rows ex),
             map (\<lambda>j. (nth_file_path (file_path' ex) j,
                       concat (map (fvecs_row_bytes d c) (file_rows ex j))))
                 [0..<file_count ex])"
    if "store_ok env \<and> fvecs_request ex c d"
  proof -
    from that have "store_ok env" "fvecs_request ex c d" by simp_all
    from ExportToFVECS_closed [OF this] show ?thesis by (simp add: expected_files_layout)
  qed
  moreover have "\<exists>schema files.
         ExportToPARQUET env ex = Inr (length (selected_rows ex), schema, files) \<and>
         map parquet_file_rows files =
           map (\<lambda>j. (nth_file_path (file_path' ex) j, map (row_values env ex) (file_rows ex j)))
               [0..<file_count ex]"
    if "parquet_request env ex"
    using that ExportToPARQUET_closed [of env ex]
    by (simp add: parquet_request_def expected_files_layout concat_parquet_rows)
  moreover have "length (file_rows ex j) = row_limit' ex"
    if "row_limit' ex \<noteq> 0 \<and> Suc j < file_count ex"
    using that by (simp add: file_rows_full)
  moreover have "file_rows ex j \<noteq> []" if "selected_rows ex \<noteq> [] \<and> j < file_count ex"
    using that by (simp add: file_rows_last)
  moreover have "nth_file_path p j = (if j = 0 then p else p @ ''.part'' @ show_nat j)"
    by (simp add: nth_file_path_def part_file_path_def)
  moreover note file_count_spec [of ex] file_rows_def [of ex j]
  ultimately show ?thesis by blast
qed

theorem C3_file_splitting_witness:
  "text_request demo_env (demo_request all_visible 0 0 2) \<and>
   store_ok demo_env \<and> fvecs_request (demo_vectors_request [0] 0 0 1) 0 2 \<and>
   parquet_request demo_env (demo_request all_visible 0 0 2) \<and>
   row_limit' (demo_request all_visible 0 0 2) \<noteq> 0 \<and>
   Suc 0 < file_count (demo_request all_visible 0 0 2) \<and>
   selected_rows (demo_request all_visible 0 0 2) \<noteq> [] \<and>
   1 < file_count (demo_request all_visible 0 0 2) \<and>
   ExportToCSV demo_env (demo_request all_visible 0 0 2)
     = Inr (3, [(''/tmp/t.csv'',
                 ''id,name'' @ [CHR 0x0A] @ ''1,a'' @ [CHR 0x0A] @ ''2,b'' @ [CHR 0x0A]),
                (''/tmp/t.csv.part1'', ''3,c'' @ [CHR 0x0A])]) \<and>
   ExportToFVECS demo_env (demo_vectors_request [0] 0 0 1)
     = Inr (2, [(''/tmp/v.fvecs'',
                 [0x02, 0x00, 0x00, 0x00, 0x00, 0x00, 0x80, 0x3F, 0x00, 0x00, 0x00, 0x40]),
                (''/tmp/v.fvecs.part1'',
                 [0x02, 0x00, 0x00, 0x00, 0x00, 0x00, 0x40, 0x40, 0x00, 0x00, 0x80, 0x40])]) \<and>
   (\<exists>files. ExportToJSONL demo_json demo_env (demo_request all_visible 0 0 2) = Inr (3, files) \<and>
              length files = 2) \<and>
   (\<exists>schema files.
      ExportToPARQUET demo_env (demo_request all_visible 0 0 2) = Inr (3, schema, files) \<and>
      map parquet_file_rows files
        = [(''/tmp/t.csv'', [[text_value kInteger ''1'', text_value kVarchar ''a''],
                             [text_value kInteger ''2'', text_value kVarchar ''b'']]),
           (''/tmp/t.csv.part1'', [[text_value kInteger ''3'', text_value kVarchar ''c'']])]) \<and>
   file_count (demo_request all_visible 0 0 2) = spec_file_count 3 2 \<and>
   length (file_rows (demo_request all_visible 0 0 2) 0) = 2 \<and>
   file_rows (demo_request all_visible 0 0 2) 1 \<noteq> []"
proof -
  let ?t = "demo_request all_visible 0 0 2" and ?v = "demo_vectors_request [0] 0 0 1"
  have st: "selected_rows ?t = [(0, demo_block, 0), (0, demo_block, 1), (0, demo_block, 2)]"
    by (simp add: demo_selected take_limit_def all_visible_def)
  have sv: "selected_rows ?v = [(0, demo_vector_block, 0), (0, demo_vector_block, 1)]"
    by (simp add: demo_vectors_selected take_limit_def)
  have ct: "file_count ?t = 2" by (simp add: file_count_def st demo_fields)
  have cv: "file_count ?v = 2" using sv by (simp add: file_count_def demo_vectors_fields)
  have rt: "file_rows ?t 0 = [(0, demo_block, 0), (0, demo_block, 1)]"
    "file_rows ?t (Suc 0) = [(0, demo_block, 2)]"
    by (simp_all add: file_rows_def st demo_fields)
  have rv: "file_rows ?v 0 = [(0, demo_vector_block, 0)]"
    "file_rows ?v (Suc 0) = [(0, demo_vector_block, 1)]"
    using sv by (simp_all add: file_rows_def demo_vectors_fields)
  have h: "text_request demo_env ?t" "store_ok demo_env" "fvecs_request ?v 0 2"
    "parquet_request demo_env ?t" "row_limit' ?t \<noteq> 0" "Suc 0 < file_count ?t"
    "selected_rows ?t \<noteq> []" "1 < file_count ?t"
    by (simp_all add: demo_text_request demo_store_ok demo_fvecs_request demo_parquet_request
          demo_fields ct st)
  have pr: "row_values demo_env ?t (0, demo_block, 0)
              = [text_value kInteger ''1'', text_value kVarchar ''a'']"
    "row_values demo_env ?t (0, demo_block, Suc 0)
              = [text_value kInteger ''2'', text_value kVarchar ''b'']"
    "row_values demo_env ?t (0, demo_block, 2)
              = [text_value kInteger ''3'', text_value kVarchar ''c'']"
    by (simp_all add: row_values_def demo_select demo_column_vector)
  note a = C3_file_splitting [of demo_env ?t demo_json 0 2 0 "''/tmp/t.csv''"]
  note a1 = C3_file_splitting [of demo_env ?t demo_json 0 2 1 "''/tmp/t.csv''"]
  note b = C3_file_splitting [of demo_env ?v demo_json 0 2 0 "''/tmp/v.fvecs''"]
  from a h st ct rt have e1: "ExportToCSV demo_env ?t
     = Inr (3, [(''/tmp/t.csv'',
                 ''id,name'' @ [CHR 0x0A] @ ''1,a'' @ [CHR 0x0A] @ ''2,b'' @ [CHR 0x0A]),
                (''/tmp/t.csv.part1'', ''3,c'' @ [CHR 0x0A])])"
    by (simp add: upt_0_2 nth_file_path_def part_file_path_def show_nat_digits
          demo_fields demo_header demo_csv_rows)
  from b h sv cv rv have e2: "ExportToFVECS demo_env ?v
     = Inr (2, [(''/tmp/v.fvecs'',
                 [0x02, 0x00, 0x00, 0x00, 0x00, 0x00, 0x80, 0x3F, 0x00, 0x00, 0x00, 0x40]),
                (''/tmp/v.fvecs.part1'',
                 [0x02, 0x00, 0x00, 0x00, 0x00, 0x00, 0x40, 0x40, 0x00, 0x00, 0x80, 0x40])])"
    by (simp add: upt_0_2 nth_file_path_def part_file_path_def show_nat_digits
          demo_vectors_fields fvecs_row_bytes_def i32_bytes_2 demo_vector_block_def)
  from a h st ct have e3: "\<exists>files. ExportToJSONL demo_json demo_env ?t = Inr (3, files) \<and>
                       length files = 2"
    by simp
  from a h st ct rt pr have e4: "\<exists>schema files.
      ExportToPARQUET demo_env ?t = Inr (3, schema, files) \<and>
      map parquet_file_rows files
        = [(''/tmp/t.csv'', [[text_value kInteger ''1'', text_value kVarchar ''a''],
                             [text_value kInteger ''2'', text_value kVarchar ''b'']]),
           (''/tmp/t.csv.part1'', [[text_value kInteger ''3'', text_value kVarchar ''c'']])]"
    by (simp add: upt_0_2 nth_file_path_def part_file_path_def show_nat_digits demo_fields
          numeral_3_eq_3)
  from a h st have e5: "file_count ?t = spec_file_count 3 2"
    by (simp add: demo_fields numeral_3_eq_3)
  from a h have "length (file_rows ?t 0) = row_limit' ?t" by blast
  then have e6: "length (file_rows ?t 0) = 2" by (simp add: demo_fields)
  from a1 h have e7: "file_rows ?t 1 \<noteq> []" by blast
  from h e1 e2 e3 e4 e5 e6 e7 show ?thesis by (intro conjI)
qed

text \<open>
  Claim C3 as stated fails when no row is selected: with per-file limit 2 and every row
  deleted the export still leaves its base file, one file, while \<open>0 / 2\<close> rounded up
  is 0.
\<close>

theorem C3_no_rows_counterexample:
  "ExportToCSV demo_env (demo_request none_visible 0 0 2)
     = Inr (0, [(''/tmp/t.csv'', ''id,name'' @ [CHR 0x0A])]) \<and>
   spec_file_count 0 2 = 0"
proof -
  let ?t = "demo_request none_visible 0 0 2"
  have "text_request demo_env ?t" by (rule demo_text_request)
  then have "ExportToCSV demo_env ?t =
               Inr (length (selected_rows ?t),
                    expected_files ?t (csv_header_text demo_env ?t) (csv_row_text demo_env ?t))"
    by (simp add: text_request_def ExportToCSV_closed)
  then show ?thesis
    by (simp add: expected_files_layout file_count_def nth_file_path_def file_rows_def
          demo_fields demo_selected take_limit_def none_visible_def demo_header
          spec_file_count_def)
qed

text \<open>
  Claim C9. With the header flag on, the header line is written once, at the start of
  the base file; every later file \<open>{path}.part{j}\<close> consists of the lines of its rows
  alone, and there is at least one such row.
\<close>

theorem C9_header_once:
  "text_request env ex \<and> header' ex \<longrightarrow>
     ExportToCSV env ex =
       Inr (length (selected_rows ex),
            (file_path' ex,
             delimited (delimiter' ex) (map (column_name env ex) (select_columns_of ex))
             @ [CHR 0x0A] @ concat (map (csv_row_text env ex) (file_rows ex 0)))
            # map (\<lambda>j. (part_file_path (file_path' ex) j,
                         concat (map (csv_row_text env ex) (file_rows ex j))))
                  [1..<file_count ex]) \<and>
     (\<forall>j. 0 < j \<and> j < file_count ex \<longrightarrow> file_rows ex j \<noteq> [])"
proof (intro impI, elim conjE)
  assume r: "text_request env ex" and h: "header' ex"
  have m: "map (\<lambda>j. (nth_file_path (file_path' ex) j,
                     (if j = 0 then csv_header_text env ex else []) @
                     concat (map (csv_row_text env ex) (file_rows ex j))))
               [1..<file_count ex]
           = map (\<lambda>j. (part_file_path (file_path' ex) j,
                         concat (map (csv_row_text env ex) (file_rows ex j))))
                 [1..<file_count ex]"
    by (rule map_cong) (auto simp: nth_file_path_def)
  from r have "ExportToCSV env ex =
        Inr (length (selected_rows ex),
             expected_files ex (csv_header_text env ex) (csv_row_text env ex))"
    by (simp add: text_request_def ExportToCSV_closed)
  then have e: "ExportToCSV env ex =
       Inr (length (selected_rows ex),
            (file_path' ex,
             delimited (delimiter' ex) (map (column_name env ex) (select_columns_of ex))
             @ [CHR 0x0A] @ concat (map (csv_row_text env ex) (file_rows ex 0)))
            # map (\<lambda>j. (part_file_path (file_path' ex) j,
                         concat (map (csv_row_text env ex) (file_rows ex j))))
                  [1..<file_count ex])"
    unfolding expected_files_layout upt_0_file_count list.map m
    using h by (simp add: nth_file_path_def csv_header_text_def text_line_def)
  have "file_rows ex j \<noteq> []" if "0 < j \<and> j < file_count ex" for j
  proof -
    from that have "1 < file_count ex" by simp
    then have "selected_rows ex \<noteq> []" by (auto simp: file_count_def split: if_splits)
    with that show ?thesis by (simp add: file_rows_last)
  qed
  with e show "ExportToCSV env ex =
       Inr (length (selected_rows ex),
            (file_path' ex,
             delimited (delimiter' ex) (map (column_name env ex) (select_columns_of ex))
             @ [CHR 0x0A] @ concat (map (csv_row_text env ex) (file_rows ex 0)))
            # map (\<lambda>j. (part_file_path (file_path' ex) j,
                         concat (map (csv_row_text env ex) (file_rows ex j))))
                  [1..<file_count ex]) \<and>
     (\<forall>j. 0 < j \<and> j < file_count ex \<longrightarrow> file_rows ex j \<noteq> [])"
    by blast
qed

theorem C9_header_once_witness:
  "text_request demo_env (demo_request all_visible 0 0 2) \<and>
   header' (demo_request all_visible 0 0 2) \<and>
   ExportToCSV demo_env (demo_request all_visible 0 0 2)
     = Inr (3, [(''/tmp/t.csv'',
                 ''id,name'' @ [CHR 0x0A] @ ''1,a'' @ [CHR 0x0A] @ ''2,b'' @ [CHR 0x0A]),
                (''/tmp/t.csv.part1'', ''3,c'' @ [CHR 0x0A])])"
proof -
  let ?t = "demo_request all_visible 0 0 2"
  have st: "selected_rows ?t = [(0, demo_block, 0), (0, demo_block, 1), (0, demo_block, 2)]"
    by (simp add: demo_selected take_limit_def all_visible_def)
  have ct: "file_count ?t = 2" using st by (simp add: file_count_def demo_fields)
  have rt: "file_rows ?t 0 = [(0, demo_block, 0), (0, demo_block, 1)]"
    "file_rows ?t (Suc 0) = [(0, demo_block, 2)]"
    using st by (simp_all add: file_rows_def demo_fields)
  have u: "[Suc 0..<2] = [Suc 0]" by (simp add: upt_rec)
  have h: "text_request demo_env ?t" "header' ?t"
    by (simp_all add: demo_text_request demo_fields)
  have hd: "delimited (delimiter' ?t) (map (column_name demo_env ?t) (select_columns_of ?t))
              = ''id,name''"
    using demo_header [of all_visible 0 0 2]
    by (simp add: csv_header_text_def text_line_def demo_fields)
  from C9_header_once [of demo_env ?t] h
  have "ExportToCSV demo_env ?t
     = Inr (3, [(''/tmp/t.csv'',
                 ''id,name'' @ [CHR 0x0A] @ ''1,a'' @ [CHR 0x0A] @ ''2,b'' @ [CHR 0x0A]),
                (''/tmp/t.csv.part1'', ''3,c'' @ [CHR 0x0A])])"
    using st ct rt hd
    by (simp add: u part_file_path_def show_nat_digits demo_fields demo_csv_rows)
  with h show ?thesis by (intro conjI)
qed
end
